theory Spec2Isabelle
  imports Complex_Main
begin

section \<open>Smart YouTube Analyzer: a shallow embedding of the backend services\<close>

text \<open>
  The development follows the four source files of the backend:
  \<^verbatim>\<open>services/ai_service.py\<close>, \<^verbatim>\<open>main.py\<close>,
  \<^verbatim>\<open>services/translation_service.py\<close> and \<^verbatim>\<open>services/transcript_service.py\<close>.
  Python exceptions are values of a sum type, calls into external libraries are
  parameters of the model, and what a function does to the outside world is returned
  as a trace of events.
\<close>

subsection \<open>Python exceptions\<close>

text \<open>
  The exception classes that the modelled code raises itself or that the operations it
  calls raise, each with its message. \<open>OtherError\<close> carries the class name and the message
  of any other subclass of \<^verbatim>\<open>Exception\<close>, as an external library may raise one.
\<close>

datatype exn =
    ValueError string
  | KeyError string
  | IndexError string
  | TypeError string
  | AttributeError string
  | RuntimeError string
  | FileNotFoundError string
  | JSONDecodeError string
  | OtherError string string

text \<open>\<^verbatim>\<open>str(e)\<close>: the message; a \<^verbatim>\<open>KeyError\<close> prints the key in quotes.\<close>

fun exn_str :: "exn \<Rightarrow> string" where
  "exn_str (ValueError m) = m"
| "exn_str (KeyError k) = [CHR 0x27] @ k @ [CHR 0x27]"
| "exn_str (IndexError m) = m"
| "exn_str (TypeError m) = m"
| "exn_str (AttributeError m) = m"
| "exn_str (RuntimeError m) = m"
| "exn_str (FileNotFoundError m) = m"
| "exn_str (JSONDecodeError m) = m"
| "exn_str (OtherError c m) = m"

subsection \<open>Timestamp formatting (\<^verbatim>\<open>AIService._format_timestamp\<close>)\<close>

text \<open>
  \<^verbatim>\<open>str(n)\<close> of a Python integer: decimal digits, most significant first, with a
  leading minus sign for a negative number.
\<close>

definition digit_char :: "nat \<Rightarrow> char" where
  "digit_char d = ''0123456789'' ! (d mod 10)"

fun digits10 :: "nat \<Rightarrow> string" where
  "digits10 n = (if n < 10 then [digit_char n] else digits10 (n div 10) @ [digit_char (n mod 10)])"

declare digits10.simps [simp del]

definition py_str_int :: "int \<Rightarrow> string" where
  "py_str_int i = (if i < 0 then CHR ''-'' # digits10 (nat (- i)) else digits10 (nat i))"

text \<open>
  The format specification \<^verbatim>\<open>:02d\<close>: the decimal text of the integer, filled on the
  left with zeros up to a width of two characters.
\<close>

definition fmt_02d :: "int \<Rightarrow> string" where
  "fmt_02d i = (let body = py_str_int i in replicate (2 - length body) CHR ''0'' @ body)"

text \<open>
  \<^verbatim>\<open>int(seconds)\<close> on a finite float truncates towards zero. A finite float is a
  rational number, so the argument is a real number here.
\<close>

definition py_int :: "real \<Rightarrow> int" where
  "py_int x = (if 0 \<le> x then \<lfloor>x\<rfloor> else \<lceil>x\<rceil>)"

text \<open>
  Lines 200 to 208 of \<^verbatim>\<open>ai_service.py\<close>. Python's \<^verbatim>\<open>//\<close> and \<^verbatim>\<open>%\<close> round
  towards minus infinity, as \<open>div\<close> and \<open>mod\<close> on \<^typ>\<open>int\<close> do.
\<close>

definition format_timestamp :: "real \<Rightarrow> string" where
  "format_timestamp seconds =
     (let s = py_int seconds;
          hours = s div 3600;
          minutes = (s mod 3600) div 60;
          secs = s mod 60
      in if hours > 0
         then py_str_int hours @ '':'' @ fmt_02d minutes @ '':'' @ fmt_02d secs
         else py_str_int minutes @ '':'' @ fmt_02d secs)"

text \<open>
  What the specification calls "zero-padded to 2 digits": the tens digit, then the
  units digit.
\<close>

definition two_digits :: "int \<Rightarrow> string" where
  "two_digits k = [digit_char (nat k div 10), digit_char (nat k mod 10)]"

subsection \<open>Transcript segments\<close>

text \<open>
  A transcript segment is a Python dictionary. The services read the keys
  \<^verbatim>\<open>text\<close>, \<^verbatim>\<open>start\<close>, \<^verbatim>\<open>duration\<close> and \<^verbatim>\<open>original\<close> only; a field is \<open>None\<close> when the
  dictionary has no such key, so that \<^verbatim>\<open>seg["text"]\<close> on it raises \<^verbatim>\<open>KeyError\<close> and
  \<^verbatim>\<open>seg.get("original", d)\<close> gives the default. Texts are strings and times are finite
  floats, as the data model of the specification has them.
\<close>

record segment =
  seg_text :: "string option"
  seg_start :: "real option"
  seg_duration :: "real option"
  seg_original :: "string option"

text \<open>\<^verbatim>\<open>seg[key]\<close>: the value, or \<^verbatim>\<open>KeyError\<close> with the key.\<close>

definition subscript :: "string \<Rightarrow> 'a option \<Rightarrow> exn + 'a" where
  "subscript key field = (case field of None \<Rightarrow> Inl (KeyError key) | Some v \<Rightarrow> Inr v)"

subsection \<open>Identifier extraction (\<^verbatim>\<open>VideoRequest.extract_video_id\<close> in \<^verbatim>\<open>main.py\<close>)\<close>

text \<open>
  The character class \<^verbatim>\<open>[a-zA-Z0-9_-]\<close>. A \<^typ>\<open>char\<close> is a byte; a Python character
  outside ASCII is in none of the ranges and in neither literal prefix, as is every byte
  above 127 here.
\<close>

definition idchar :: "char \<Rightarrow> bool" where
  "idchar c =
     (let n = (of_char c :: nat)
      in (97 \<le> n \<and> n \<le> 122) \<or> (65 \<le> n \<and> n \<le> 90) \<or> (48 \<le> n \<and> n \<le> 57)
         \<or> c = CHR ''_'' \<or> c = CHR ''-'')"

text \<open>The group \<^verbatim>\<open>([a-zA-Z0-9_-]{11})\<close>, matched at the start of the text.\<close>

definition take_id :: "string \<Rightarrow> string option" where
  "take_id r = (if 11 \<le> length r \<and> list_all idchar (take 11 r) then Some (take 11 r) else None)"

definition starts_with :: "string \<Rightarrow> string \<Rightarrow> bool" where
  "starts_with lit s = (take (length lit) s = lit)"

definition watch_prefix :: string where
  "watch_prefix = ''youtube.com/watch?v=''"

definition short_prefix :: string where
  "short_prefix = ''youtu.be/''"

text \<open>
  The first pattern, \<^verbatim>\<open>(?:youtube\.com\/watch\?v=|youtu\.be\/)([a-zA-Z0-9_-]{11})\<close>, tried at
  the start of the text: the first alternative and the group, and when that fails the
  second alternative and the group. The result is group 1.
\<close>

definition url_pattern_at :: "string \<Rightarrow> string option" where
  "url_pattern_at s =
     (case (if starts_with watch_prefix s then take_id (drop (length watch_prefix) s) else None) of
        Some g \<Rightarrow> Some g
      | None \<Rightarrow> (if starts_with short_prefix s then take_id (drop (length short_prefix) s) else None))"

text \<open>
  \<^verbatim>\<open>re.search\<close> with the first pattern: the pattern is tried at every position from left
  to right, the end of the text included, and the first position where it matches wins.
\<close>

fun re_search_url :: "string \<Rightarrow> string option" where
  "re_search_url [] = url_pattern_at []"
| "re_search_url (c # cs) =
     (case url_pattern_at (c # cs) of Some g \<Rightarrow> Some g | None \<Rightarrow> re_search_url cs)"

text \<open>
  \<^verbatim>\<open>re.search\<close> with the second pattern, \<^verbatim>\<open>^([a-zA-Z0-9_-]{11})$\<close>. Without the
  multi-line flag \<^verbatim>\<open>^\<close> matches at the start of the text only, and \<^verbatim>\<open>$\<close> matches at the
  end of the text and also just before a line feed that ends the text.
\<close>

definition re_search_id :: "string \<Rightarrow> string option" where
  "re_search_id s =
     (case take_id s of
        Some g \<Rightarrow> (if drop 11 s = [] \<or> drop 11 s = [CHR 0x0A] then Some g else None)
      | None \<Rightarrow> None)"

text \<open>
  Lines 57 to 67: the patterns in order, the first match returns its group, and no match
  raises \<^verbatim>\<open>ValueError\<close>, which the request model reports as a validation error.
\<close>

definition extract_video_id :: "string \<Rightarrow> exn + string" where
  "extract_video_id v =
     (case re_search_url v of
        Some g \<Rightarrow> Inr g
      | None \<Rightarrow>
         (case re_search_id v of
            Some g \<Rightarrow> Inr g
          | None \<Rightarrow> Inl (ValueError ''Invalid YouTube URL or video ID'')))"

text \<open>
  The accepted forms, stated without the matcher: an identifier token is eleven
  characters of the class; a URL occurrence is one of the two literal prefixes followed
  by a token, anywhere in the text.
\<close>

definition token :: "string \<Rightarrow> bool" where
  "token t = (length t = 11 \<and> list_all idchar t)"

definition url_occurrence :: "string \<Rightarrow> string \<Rightarrow> string \<Rightarrow> bool" where
  "url_occurrence pre ident s =
     (\<exists>p rest. (p = watch_prefix \<or> p = short_prefix) \<and> token ident \<and> s = pre @ p @ ident @ rest)"

subsection \<open>Structured analysis (\<^verbatim>\<open>AIService.generate_analysis\<close>)\<close>

text \<open>
  Lines 183 to 188: one line \<^verbatim>\<open>[timestamp] text\<close> per segment, joined by line feeds.
  \<^verbatim>\<open>seg["start"]\<close> is read first, for the timestamp, and \<^verbatim>\<open>seg['text']\<close> after it.
\<close>

definition timestamp_line :: "segment \<Rightarrow> exn + string" where
  "timestamp_line seg =
     (case subscript ''start'' (seg_start seg) of
        Inl e \<Rightarrow> Inl e
      | Inr start \<Rightarrow>
         (case subscript ''text'' (seg_text seg) of
            Inl e \<Rightarrow> Inl e
          | Inr txt \<Rightarrow> Inr (''['' @ format_timestamp start @ ''] '' @ txt)))"

fun timestamp_lines :: "segment list \<Rightarrow> exn + string list" where
  "timestamp_lines [] = Inr []"
| "timestamp_lines (seg # segs) =
     (case timestamp_line seg of
        Inl e \<Rightarrow> Inl e
      | Inr l \<Rightarrow> (case timestamp_lines segs of Inl e \<Rightarrow> Inl e | Inr ls \<Rightarrow> Inr (l # ls)))"

fun join_lines :: "string list \<Rightarrow> string" where
  "join_lines [] = []"
| "join_lines [l] = l"
| "join_lines (l # ls) = l @ [CHR 0x0A] @ join_lines ls"

definition combine_transcript_with_timestamps :: "segment list \<Rightarrow> exn + string" where
  "combine_transcript_with_timestamps transcript =
     (case timestamp_lines transcript of Inl e \<Rightarrow> Inl e | Inr ls \<Rightarrow> Inr (join_lines ls))"

text \<open>
  \<^verbatim>\<open>str.strip()\<close> removes white space at both ends. Among the bytes, Python's white
  space is the codes 9 to 13 and 28 to 32.
\<close>

definition is_space :: "char \<Rightarrow> bool" where
  "is_space c = (let n = (of_char c :: nat) in (9 \<le> n \<and> n \<le> 13) \<or> (28 \<le> n \<and> n \<le> 32))"

definition py_strip :: "string \<Rightarrow> string" where
  "py_strip s = rev (dropWhile is_space (rev (dropWhile is_space s)))"

definition ends_with :: "string \<Rightarrow> string \<Rightarrow> bool" where
  "ends_with lit s = (length lit \<le> length s \<and> drop (length s - length lit) s = lit)"

text \<open>Three backticks, and three backticks followed by \<^verbatim>\<open>json\<close>.\<close>

definition fence :: string where
  "fence = [CHR 0x60, CHR 0x60, CHR 0x60]"

definition json_fence :: string where
  "json_fence = fence @ ''json''"

text \<open>
  Lines 129 to 137: the response text is stripped, then loses seven characters when it
  starts with the \<^verbatim>\<open>json\<close> fence, then three when it (still) starts with a fence, then
  its last three when it ends with a fence.
\<close>

definition clean_markdown :: "string \<Rightarrow> string" where
  "clean_markdown response_text =
     (let r0 = py_strip response_text;
          r1 = (if starts_with json_fence r0 then drop 7 r0 else r0);
          r2 = (if starts_with fence r1 then drop 3 r1 else r1);
          r3 = (if ends_with fence r2 then take (length r2 - 3) r2 else r2)
      in r3)"

text \<open>What \<^verbatim>\<open>json.loads\<close> returns: a JSON value; an object keeps its members in order.\<close>

datatype json =
    JNull
  | JBool bool
  | JNum real
  | JStr string
  | JArr "json list"
  | JObj "(string \<times> json) list"

text \<open>
  \<^verbatim>\<open>key in analysis\<close>: a key of a dictionary, an element of a list, a substring of a
  string; any other value is not iterable and the test raises \<^verbatim>\<open>TypeError\<close>.
\<close>

definition is_substring :: "string \<Rightarrow> string \<Rightarrow> bool" where
  "is_substring k s = list_ex (\<lambda>i. starts_with k (drop i s)) [0..<Suc (length s)]"

fun py_in :: "string \<Rightarrow> json \<Rightarrow> exn + bool" where
  "py_in k (JObj kvs) = Inr (k \<in> set (map fst kvs))"
| "py_in k (JArr vs) = Inr (JStr k \<in> set vs)"
| "py_in k (JStr s) = Inr (is_substring k s)"
| "py_in k v = Inl (TypeError ''argument is not iterable'')"

text \<open>
  \<^verbatim>\<open>analysis[key]\<close> with a string key: the value of a dictionary (Python keeps the last
  of repeated members), \<^verbatim>\<open>KeyError\<close> when it is missing, and \<^verbatim>\<open>TypeError\<close> on any
  other value.
\<close>

fun py_item :: "json \<Rightarrow> string \<Rightarrow> exn + json" where
  "py_item (JObj kvs) k =
     (case map_of (rev kvs) k of None \<Rightarrow> Inl (KeyError k) | Some v \<Rightarrow> Inr v)"
| "py_item v k = Inl (TypeError ''indices must be integers'')"

text \<open>\<^verbatim>\<open>len(v)\<close>: defined on lists, dictionaries and strings.\<close>

fun py_len :: "json \<Rightarrow> exn + nat" where
  "py_len (JArr vs) = Inr (length vs)"
| "py_len (JObj kvs) = Inr (length (remdups (map fst kvs)))"
| "py_len (JStr s) = Inr (length s)"
| "py_len v = Inl (TypeError ''object has no len()'')"

text \<open>The fallback structure of lines 153 to 156.\<close>

definition fallback_analysis :: json where
  "fallback_analysis =
     JObj [(''chapters'', JArr [JObj [(''timestamp'', JStr ''0:00''), (''title'', JStr ''Full Video'')]]),
           (''key_notes'', JArr [JObj [(''time'', JStr ''0:00''), (''note'', JStr ''Analysis unavailable'')]])]"

text \<open>
  Lines 142 to 147, after the parse: the test of the two keys (the second is not
  evaluated when the first key is missing), the log line, whose two \<^verbatim>\<open>len\<close> calls can
  raise, and the return of the parsed value.
\<close>

definition validate_structure :: "json \<Rightarrow> exn + json" where
  "validate_structure analysis =
     (case py_in ''chapters'' analysis of
        Inl e \<Rightarrow> Inl e
      | Inr False \<Rightarrow> Inl (ValueError ''Invalid analysis structure'')
      | Inr True \<Rightarrow>
         (case py_in ''key_notes'' analysis of
            Inl e \<Rightarrow> Inl e
          | Inr False \<Rightarrow> Inl (ValueError ''Invalid analysis structure'')
          | Inr True \<Rightarrow>
             (case py_item analysis ''chapters'' of
                Inl e \<Rightarrow> Inl e
              | Inr chapters \<Rightarrow>
                 (case py_len chapters of
                    Inl e \<Rightarrow> Inl e
                  | Inr n \<Rightarrow>
                     (case py_item analysis ''key_notes'' of
                        Inl e \<Rightarrow> Inl e
                      | Inr notes \<Rightarrow>
                         (case py_len notes of
                            Inl e \<Rightarrow> Inl e
                          | Inr m \<Rightarrow> Inr analysis))))))"

text \<open>
  Lines 129 to 159 for a response text. \<open>loads\<close> is \<^verbatim>\<open>json.loads\<close>, a parameter: it
  returns the parsed value or raises. \<^verbatim>\<open>json.JSONDecodeError\<close> is caught and answered with
  the fallback; every other exception, the \<^verbatim>\<open>ValueError\<close> of the validation included,
  reaches \<^verbatim>\<open>except Exception\<close>, which logs and raises it again.
\<close>

definition analysis_of_response :: "(string \<Rightarrow> exn + json) \<Rightarrow> string \<Rightarrow> exn + json" where
  "analysis_of_response loads response_text =
     (case loads (py_strip (clean_markdown response_text)) of
        Inl (JSONDecodeError m) \<Rightarrow> Inr fallback_analysis
      | Inl e \<Rightarrow> Inl e
      | Inr analysis \<Rightarrow> validate_structure analysis)"

text \<open>
  The whole of \<^verbatim>\<open>generate_analysis\<close>. \<open>generate_content\<close> is the call of the generative
  model with the fixed prompt around the combined transcript: it raises, or returns a
  response whose \<^verbatim>\<open>text\<close> is a string or \<^verbatim>\<open>None\<close>. The transcript is combined before the
  \<^verbatim>\<open>try\<close>, so its \<^verbatim>\<open>KeyError\<close> is raised as it is. A \<^verbatim>\<open>JSONDecodeError\<close> of the call
  itself enters the first handler, which reads \<^verbatim>\<open>response_text\<close> before it was ever
  assigned.
\<close>

definition generate_analysis ::
  "(string \<Rightarrow> exn + string option) \<Rightarrow> (string \<Rightarrow> exn + json) \<Rightarrow> segment list \<Rightarrow> exn + json" where
  "generate_analysis generate_content loads transcript =
     (case combine_transcript_with_timestamps transcript of
        Inl e \<Rightarrow> Inl e
      | Inr full_text \<Rightarrow>
         (case generate_content full_text of
            Inl (JSONDecodeError m) \<Rightarrow> Inl (OtherError ''UnboundLocalError'' ''response_text'')
          | Inl e \<Rightarrow> Inl e
          | Inr None \<Rightarrow> Inl (AttributeError ''strip'')
          | Inr (Some response_text) \<Rightarrow> analysis_of_response loads response_text))"

text \<open>
  The wrapping that the response may come in: a fence with a language tag, white space,
  the payload, white space, a fence.
\<close>

definition fenced :: "string \<Rightarrow> string \<Rightarrow> string \<Rightarrow> string \<Rightarrow> string" where
  "fenced tag ws1 payload ws2 = fence @ tag @ ws1 @ payload @ ws2 @ fence"

text \<open>
  \<^verbatim>\<open>json.loads\<close> as far as the examples below use it, with the double quote written
  as \<open>CHR 0x22\<close>: the text of the empty object and the text of an object with both keys
  are parsed; the other texts that the examples give to it (a sentence, and the object
  after the word \<^verbatim>\<open>javascript\<close> and a line feed) are no JSON texts, and it raises
  \<^verbatim>\<open>JSONDecodeError\<close>.
\<close>

definition both_keys_text :: string where
  "both_keys_text =
     ''{'' @ [CHR 0x22] @ ''chapters'' @ [CHR 0x22] @ '': [], '' @
     [CHR 0x22] @ ''key_notes'' @ [CHR 0x22] @ '': []}''"

definition loads_examples :: "string \<Rightarrow> exn + json" where
  "loads_examples s =
     (if s = ''{}'' then Inr (JObj [])
      else if s = both_keys_text then Inr (JObj [(''chapters'', JArr []), (''key_notes'', JArr [])])
      else Inl (JSONDecodeError ''Expecting value''))"

text \<open>A generative model that answers every prompt with the given text.\<close>

definition responds :: "string \<Rightarrow> string \<Rightarrow> exn + string option" where
  "responds response_text prompt = Inr (Some response_text)"

definition one_segment :: "segment list" where
  "one_segment = [\<lparr>seg_text = Some ''hello'', seg_start = Some 0, seg_duration = Some 2, seg_original = None\<rparr>]"

subsection \<open>Translation (\<^verbatim>\<open>translation_service.py\<close>)\<close>

text \<open>The table \<^verbatim>\<open>LANGUAGES\<close> of lines 17 to 125, in the order of the source.\<close>

definition LANGUAGES :: "(string \<times> string) list" where
  "LANGUAGES =
     [(''af'', ''afrikaans''), (''sq'', ''albanian''), (''am'', ''amharic''),
      (''ar'', ''arabic''), (''hy'', ''armenian''), (''az'', ''azerbaijani''),
      (''eu'', ''basque''), (''be'', ''belarusian''), (''bn'', ''bengali''),
      (''bs'', ''bosnian''), (''bg'', ''bulgarian''), (''ca'', ''catalan''),
      (''ceb'', ''cebuano''), (''ny'', ''chichewa''), (''zh-cn'', ''chinese (simplified)''),
      (''zh-tw'', ''chinese (traditional)''), (''co'', ''corsican''), (''hr'', ''croatian''),
      (''cs'', ''czech''), (''da'', ''danish''), (''nl'', ''dutch''), (''en'', ''english''),
      (''eo'', ''esperanto''), (''et'', ''estonian''), (''tl'', ''filipino''),
      (''fi'', ''finnish''), (''fr'', ''french''), (''fy'', ''frisian''),
      (''gl'', ''galician''), (''ka'', ''georgian''), (''de'', ''german''),
      (''el'', ''greek''), (''gu'', ''gujarati''), (''ht'', ''haitian creole''),
      (''ha'', ''hausa''), (''haw'', ''hawaiian''), (''iw'', ''hebrew''), (''he'', ''hebrew''),
      (''hi'', ''hindi''), (''hmn'', ''hmong''), (''hu'', ''hungarian''),
      (''is'', ''icelandic''), (''ig'', ''igbo''), (''id'', ''indonesian''),
      (''ga'', ''irish''), (''it'', ''italian''), (''ja'', ''japanese''),
      (''jw'', ''javanese''), (''kn'', ''kannada''), (''kk'', ''kazakh''), (''km'', ''khmer''),
      (''ko'', ''korean''), (''ku'', ''kurdish (kurmanji)''), (''ky'', ''kyrgyz''),
      (''lo'', ''lao''), (''la'', ''latin''), (''lv'', ''latvian''), (''lt'', ''lithuanian''),
      (''lb'', ''luxembourgish''), (''mk'', ''macedonian''), (''mg'', ''malagasy''),
      (''ms'', ''malay''), (''ml'', ''malayalam''), (''mt'', ''maltese''), (''mi'', ''maori''),
      (''mr'', ''marathi''), (''mn'', ''mongolian''), (''my'', ''myanmar (burmese)''),
      (''ne'', ''nepali''), (''no'', ''norwegian''), (''or'', ''odia''), (''ps'', ''pashto''),
      (''fa'', ''persian''), (''pl'', ''polish''), (''pt'', ''portuguese''),
      (''pa'', ''punjabi''), (''ro'', ''romanian''), (''ru'', ''russian''),
      (''sm'', ''samoan''), (''gd'', ''scots gaelic''), (''sr'', ''serbian''),
      (''st'', ''sesotho''), (''sn'', ''shona''), (''sd'', ''sindhi''), (''si'', ''sinhala''),
      (''sk'', ''slovak''), (''sl'', ''slovenian''), (''so'', ''somali''),
      (''es'', ''spanish''), (''su'', ''sundanese''), (''sw'', ''swahili''),
      (''sv'', ''swedish''), (''tg'', ''tajik''), (''ta'', ''tamil''), (''te'', ''telugu''),
      (''th'', ''thai''), (''tr'', ''turkish''), (''uk'', ''ukrainian''), (''ur'', ''urdu''),
      (''ug'', ''uyghur''), (''uz'', ''uzbek''), (''vi'', ''vietnamese''), (''cy'', ''welsh''),
      (''xh'', ''xhosa''), (''yi'', ''yiddish''), (''yo'', ''yoruba''), (''zu'', ''zulu'')]"

text \<open>\<^verbatim>\<open>str.lower()\<close> on the bytes: the letters A to Z move to a to z.\<close>

definition py_lower_char :: "char \<Rightarrow> char" where
  "py_lower_char c =
     (case map_of (zip ''ABCDEFGHIJKLMNOPQRSTUVWXYZ'' ''abcdefghijklmnopqrstuvwxyz'') c of
        Some l \<Rightarrow> l
      | None \<Rightarrow> c)"

text \<open>Lines 146 to 149: \<^verbatim>\<open>lang_code.lower() in LANGUAGES\<close>, a test of the keys.\<close>

definition validate_language :: "string \<Rightarrow> bool" where
  "validate_language lang_code = (map py_lower_char lang_code \<in> set (map fst LANGUAGES))"

text \<open>
  The translation client of the \<^verbatim>\<open>googletrans\<close> library, a parameter of the model.
  \<open>'w\<close> is the state of everything outside the service (the network, the remote service,
  the client object). \<open>new_client\<close> is \<^verbatim>\<open>Translator()\<close>; \<open>translate_list\<close> is
  \<^verbatim>\<open>translator.translate(texts, dest=lang)\<close> on a list, giving the \<^verbatim>\<open>text\<close> of every result
  or raising; \<open>translate_one\<close> is the call on one string with \<^verbatim>\<open>src='auto'\<close>, giving the
  result's \<^verbatim>\<open>text\<close> (empty when there is none) or raising.
\<close>

record 'w googletrans =
  new_client :: "'w \<Rightarrow> 'w"
  translate_list :: "'w \<Rightarrow> string list \<Rightarrow> string \<Rightarrow> (exn + string list) \<times> 'w"
  translate_one :: "'w \<Rightarrow> string \<Rightarrow> string \<Rightarrow> (exn + string) \<times> 'w"

text \<open>
  What the service does to the outside, in order: a client is created, a translation
  call is made with its texts and target language, the coroutine sleeps for a number
  of seconds.
\<close>

datatype tr_event =
    NewClient
  | TranslateCall "string list" string
  | Sleep real

definition batch_size :: nat where
  "batch_size = 15"

text \<open>
  Lines 175 to 206, \<^verbatim>\<open>translate_text\<close>: up to \<open>max_retries\<close> attempts; after a failed
  attempt that is not the last, a sleep of one second and a new client; after the last,
  the text itself. \<open>attempt\<close> counts from 0 as \<^verbatim>\<open>range(max_retries)\<close> does, and
  \<open>remaining\<close> is the number of attempts still to make.
\<close>

fun translate_attempts ::
  "'w googletrans \<Rightarrow> string \<Rightarrow> string \<Rightarrow> nat \<Rightarrow> nat \<Rightarrow> 'w \<Rightarrow> string \<times> 'w \<times> tr_event list" where
  "translate_attempts env txt target_lang max_retries 0 w = (txt, w, [])"
| "translate_attempts env txt target_lang max_retries (Suc remaining) w =
     (case translate_one env w txt target_lang of
        (Inr result_text, w1) \<Rightarrow>
          (if result_text \<noteq> [] then (result_text, w1, [TranslateCall [txt] target_lang])
           else (txt, w1, [TranslateCall [txt] target_lang]))
      | (Inl e, w1) \<Rightarrow>
          (if max_retries - Suc remaining < max_retries - 1
           then (case translate_attempts env txt target_lang max_retries remaining (new_client env w1) of
                   (r, w2, ev) \<Rightarrow> (r, w2, [TranslateCall [txt] target_lang, Sleep 1, NewClient] @ ev))
           else (txt, w1, [TranslateCall [txt] target_lang])))"

definition translate_text ::
  "'w googletrans \<Rightarrow> 'w \<Rightarrow> string \<Rightarrow> string \<Rightarrow> nat \<Rightarrow> string \<times> 'w \<times> tr_event list" where
  "translate_text env w txt target_lang max_retries =
     (if txt = [] \<or> py_strip txt = [] then (txt, w, [])
      else translate_attempts env txt target_lang max_retries max_retries w)"

text \<open>
  Lines 208 to 226, \<^verbatim>\<open>translate_batch\<close>: no call for an empty list; otherwise one call,
  whose results are returned, and on any exception the texts themselves. There is no
  loop in it.
\<close>

definition translate_batch ::
  "'w googletrans \<Rightarrow> 'w \<Rightarrow> string list \<Rightarrow> string \<Rightarrow> string list \<times> 'w \<times> tr_event list" where
  "translate_batch env w texts target_lang =
     (if texts = [] then ([], w, [])
      else (case translate_list env w texts target_lang of
              (Inr results, w1) \<Rightarrow> (results, w1, [TranslateCall texts target_lang])
            | (Inl e, w1) \<Rightarrow> (texts, w1, [TranslateCall texts target_lang])))"

text \<open>Line 242: \<^verbatim>\<open>[seg["text"] for seg in batch]\<close>.\<close>

fun batch_texts :: "segment list \<Rightarrow> exn + string list" where
  "batch_texts [] = Inr []"
| "batch_texts (seg # segs) =
     (case subscript ''text'' (seg_text seg) of
        Inl e \<Rightarrow> Inl e
      | Inr t \<Rightarrow> (case batch_texts segs of Inl e \<Rightarrow> Inl e | Inr ts \<Rightarrow> Inr (t # ts)))"

text \<open>
  Line 254: \<^verbatim>\<open>segment.get("original", segment.get("text", ""))\<close>.
\<close>

definition original_of :: "segment \<Rightarrow> string" where
  "original_of seg =
     (case seg_original seg of
        Some orig \<Rightarrow> orig
      | None \<Rightarrow> (case seg_text seg of Some t \<Rightarrow> t | None \<Rightarrow> []))"

text \<open>
  Lines 248 to 255: the segments of the batch with the translated texts, in step.
  \<^verbatim>\<open>translated_texts[j]\<close> raises \<^verbatim>\<open>IndexError\<close> when the call returned fewer texts than
  the batch has segments; the dictionary is built from left to right, so that this comes
  before the \<^verbatim>\<open>KeyError\<close> of \<^verbatim>\<open>start\<close>, and that before the one of \<^verbatim>\<open>duration\<close>.
\<close>

fun combine :: "segment list \<Rightarrow> string list \<Rightarrow> exn + segment list" where
  "combine [] translated_texts = Inr []"
| "combine (seg # segs) [] = Inl (IndexError ''list index out of range'')"
| "combine (seg # segs) (t # ts) =
     (case subscript ''start'' (seg_start seg) of
        Inl e \<Rightarrow> Inl e
      | Inr start \<Rightarrow>
         (case subscript ''duration'' (seg_duration seg) of
            Inl e \<Rightarrow> Inl e
          | Inr duration \<Rightarrow>
             (case combine segs ts of
                Inl e \<Rightarrow> Inl e
              | Inr out \<Rightarrow>
                 Inr (\<lparr>seg_text = Some t, seg_start = Some start, seg_duration = Some duration,
                       seg_original = Some (original_of seg)\<rparr> # out))))"

text \<open>
  Lines 240 to 263, the loop over the batches, on the segments that remain: the texts
  of the next \<open>batch_size\<close> segments, one \<^verbatim>\<open>translate_batch\<close>, the combined segments, and a
  sleep of half a second when segments remain after the batch. An exception ends the
  loop and the function.
\<close>

function translate_loop ::
  "'w googletrans \<Rightarrow> string \<Rightarrow> 'w \<Rightarrow> segment list \<Rightarrow> (exn + segment list) \<times> 'w \<times> tr_event list" where
  "translate_loop env target_lang w remaining =
     (if remaining = [] then (Inr [], w, [])
      else
        (case batch_texts (take batch_size remaining) of
           Inl e \<Rightarrow> (Inl e, w, [])
         | Inr texts \<Rightarrow>
            (case translate_batch env w texts target_lang of
               (translated_texts, w1, ev1) \<Rightarrow>
                 (case combine (take batch_size remaining) translated_texts of
                    Inl e \<Rightarrow> (Inl e, w1, ev1)
                  | Inr out \<Rightarrow>
                     (case translate_loop env target_lang w1 (drop batch_size remaining) of
                        (later, w2, ev2) \<Rightarrow>
                          (case later of Inl e \<Rightarrow> Inl e | Inr outs \<Rightarrow> Inr (out @ outs),
                           w2,
                           ev1 @ (if drop batch_size remaining \<noteq> [] then [Sleep 0.5] else []) @ ev2))))))"
  by pat_completeness auto
termination
  by (relation "measure (\<lambda>(env, target_lang, w, remaining). length remaining)")
     (auto simp: batch_size_def)

declare translate_loop.simps [simp del]

text \<open>
  Lines 228 to 266, \<^verbatim>\<open>translate_transcript\<close>: a new client for the whole run, then the
  loop. The target language is used as it is given.
\<close>

definition translate_transcript ::
  "'w googletrans \<Rightarrow> 'w \<Rightarrow> segment list \<Rightarrow> string \<Rightarrow> (exn + segment list) \<times> 'w \<times> tr_event list" where
  "translate_transcript env w transcript target_lang =
     (case translate_loop env target_lang (new_client env w) transcript of
        (result, w1, ev) \<Rightarrow> (result, w1, NewClient # ev))"

text \<open>
  The endpoint \<^verbatim>\<open>/api/translate\<close> of \<^verbatim>\<open>main.py\<close>, lines 233 to 253: an empty transcript
  and every exception of the service become an HTTP error 500 with the message as
  detail; otherwise the translated transcript is the response.
\<close>

datatype http_error = HTTPException nat string

definition translate_endpoint ::
  "'w googletrans \<Rightarrow> 'w \<Rightarrow> segment list \<Rightarrow> string \<Rightarrow> (http_error + segment list) \<times> 'w \<times> tr_event list" where
  "translate_endpoint env w transcript target_lang =
     (if transcript = [] then (Inl (HTTPException 500 ''Transcript cannot be empty''), w, [])
      else (case translate_transcript env w transcript target_lang of
              (Inl e, w1, ev) \<Rightarrow> (Inl (HTTPException 500 (exn_str e)), w1, ev)
            | (Inr translated, w1, ev) \<Rightarrow> (Inr translated, w1, ev)))"

text \<open>
  Two clients for the examples, on a world that counts the calls made: one whose every
  call raises, and one that answers every text with the target language, a colon and
  the text when the language is in the table, and raises \<^verbatim>\<open>ValueError\<close> otherwise, as
  \<^verbatim>\<open>googletrans\<close> does for a destination it does not know.
\<close>

definition failing_client :: "nat googletrans" where
  "failing_client =
     \<lparr>new_client = (\<lambda>w. w),
      translate_list = (\<lambda>w texts lang. (Inl (OtherError ''ConnectError'' ''connection reset''), Suc w)),
      translate_one = (\<lambda>w txt lang. (Inl (OtherError ''ConnectError'' ''connection reset''), Suc w))\<rparr>"

definition tagging_client :: "nat googletrans" where
  "tagging_client =
     \<lparr>new_client = (\<lambda>w. w),
      translate_list = (\<lambda>w texts lang.
        (if validate_language lang then Inr (map (\<lambda>t. lang @ '':'' @ t) texts)
         else Inl (ValueError ''invalid destination language''), Suc w)),
      translate_one = (\<lambda>w txt lang.
        (if validate_language lang then Inr (lang @ '':'' @ txt)
         else Inl (ValueError ''invalid destination language''), Suc w))\<rparr>"

definition two_segments :: "segment list" where
  "two_segments =
     [\<lparr>seg_text = Some ''hello'', seg_start = Some 0, seg_duration = Some 2, seg_original = None\<rparr>,
      \<lparr>seg_text = Some ''hallo'', seg_start = Some 2, seg_duration = Some 3, seg_original = Some ''hello again''\<rparr>]"

text \<open>The conditions of the claims on the input and on the library.\<close>

definition well_formed :: "segment \<Rightarrow> bool" where
  "well_formed seg = (seg_text seg \<noteq> None \<and> seg_start seg \<noteq> None \<and> seg_duration seg \<noteq> None)"

text \<open>
  \<^verbatim>\<open>googletrans\<close> answers a list with one result per text; the model needs only that a
  successful call returns at least as many texts as it was given.
\<close>

definition answers_every_text :: "'w googletrans \<Rightarrow> string \<Rightarrow> bool" where
  "answers_every_text env target_lang =
     (\<forall>w texts results w1.
        translate_list env w texts target_lang = (Inr results, w1) \<longrightarrow> length texts \<le> length results)"

text \<open>The texts of well-formed segments, and a segment as it leaves untranslated.\<close>

definition texts_of :: "segment list \<Rightarrow> string list" where
  "texts_of segs = map (\<lambda>seg. case seg_text seg of Some t \<Rightarrow> t | None \<Rightarrow> []) segs"

definition passed_through :: "segment \<Rightarrow> segment" where
  "passed_through seg = seg\<lparr>seg_original := Some (original_of seg)\<rparr>"

text \<open>
  What the translation keeps of a segment: its start, its duration, and as original
  the original it had or else its text; the output has a text.
\<close>

definition preserved :: "segment \<Rightarrow> segment \<Rightarrow> bool" where
  "preserved seg out =
     (seg_start out = seg_start seg \<and> seg_duration out = seg_duration seg \<and>
      seg_original out = Some (original_of seg) \<and> seg_text out \<noteq> None)"

text \<open>A trace without a new client and without a sleep of one second.\<close>

definition loop_events :: "tr_event list \<Rightarrow> bool" where
  "loop_events ev = (NewClient \<notin> set ev \<and> Sleep 1 \<notin> set ev)"

subsection \<open>Transcript acquisition (\<^verbatim>\<open>transcript_service.py\<close>)\<close>

text \<open>
  The outside world of the service: the paths of the files that exist, and everything
  else (the network, the libraries) as a state of any type. \<^verbatim>\<open>os.path.exists\<close> is
  membership in \<open>files\<close>, and \<^verbatim>\<open>os.remove\<close> takes the path out of it.
\<close>

record 'x world =
  files :: "string set"
  ext :: 'x

definition path_exists :: "'x world \<Rightarrow> string \<Rightarrow> bool" where
  "path_exists w p = (p \<in> files w)"

definition os_remove :: "'x world \<Rightarrow> string \<Rightarrow> 'x world" where
  "os_remove w p = w\<lparr>files := files w - {p}\<rparr>"

text \<open>\<^verbatim>\<open>os.path.join\<close> of two parts, as \<^verbatim>\<open>posixpath\<close> defines it.\<close>

definition path_join :: "string \<Rightarrow> string \<Rightarrow> string" where
  "path_join a b =
     (if starts_with ''/'' b then b
      else if a = [] \<or> ends_with ''/'' a then a @ b
      else a @ ''/'' @ b)"

text \<open>A segment of the speech-to-text result, with the keys that the service reads.\<close>

record wseg =
  w_text :: string
  w_start :: real
  w_end :: real

text \<open>
  The libraries, parameters of the model; \<open>'m\<close> is a loaded speech-to-text model.
  \<^item> \<open>probe_transcript\<close> is lines 88 to 119 of \<^verbatim>\<open>_fetch_youtube_transcript\<close>: the three
    call patterns of \<^verbatim>\<open>youtube_transcript_api\<close>, each in a \<^verbatim>\<open>try\<close> that turns any
    exception into \<^verbatim>\<open>None\<close>; the outcome is the transcript list or \<^verbatim>\<open>None\<close>.
  \<^item> \<open>temp_dir\<close> is \<^verbatim>\<open>os.getenv("TEMP_DIR", "./temp_audio")\<close>.
  \<^item> \<open>makedirs\<close> is \<^verbatim>\<open>os.makedirs(temp_dir, exist_ok=True)\<close>.
  \<^item> \<open>ydl_download\<close> is the \<^verbatim>\<open>yt_dlp\<close> download of the video with the given identifier
    into the given directory, with the \<^verbatim>\<open>mp3\<close> post-processor.
  \<^item> \<open>load_model\<close> is \<^verbatim>\<open>whisper.load_model(size)\<close>.
  \<^item> \<open>transcribe\<close> is \<^verbatim>\<open>model.transcribe(audio_path, verbose=False)\<close>, giving the
    list \<^verbatim>\<open>result["segments"]\<close>.
  All but the first may raise, and all may change the world, its files included.
\<close>

record ('x, 'm) libraries =
  probe_transcript :: "'x world \<Rightarrow> string \<Rightarrow> segment list option \<times> 'x world"
  temp_dir :: string
  makedirs :: "'x world \<Rightarrow> string \<Rightarrow> (exn + unit) \<times> 'x world"
  ydl_download :: "'x world \<Rightarrow> string \<Rightarrow> string \<Rightarrow> (exn + unit) \<times> 'x world"
  load_model :: "'x world \<Rightarrow> string \<Rightarrow> (exn + 'm) \<times> 'x world"
  transcribe :: "'x world \<Rightarrow> 'm \<Rightarrow> string \<Rightarrow> (exn + wseg list) \<times> 'x world"

text \<open>The service object: the model size and the lazily loaded model.\<close>

record 'm service =
  whisper_model_size :: string
  whisper_model :: "'m option"

text \<open>
  The trace of an acquisition: the calls of the two paths by \<^verbatim>\<open>get_transcript\<close>, and
  within the offline path the download, the loading of the model, the transcription of
  a file and the removal of a file.
\<close>

datatype acq_event =
    OfficialAttempt string
  | WhisperAttempt string
  | Download string
  | LoadModel string
  | Transcribe string
  | RemoveFile string

text \<open>The dictionary that \<^verbatim>\<open>get_transcript\<close> returns.\<close>

record acquisition_result =
  res_transcript :: "segment list"
  res_source :: string
  res_success :: bool
  res_error :: "string option"

text \<open>
  Lines 125 to 131: each record of the official transcript becomes a segment with its
  text, its start and its duration, 0 when it has none.
\<close>

fun normalize_official :: "segment list \<Rightarrow> exn + segment list" where
  "normalize_official [] = Inr []"
| "normalize_official (seg # segs) =
     (case subscript ''text'' (seg_text seg) of
        Inl e \<Rightarrow> Inl e
      | Inr t \<Rightarrow>
         (case subscript ''start'' (seg_start seg) of
            Inl e \<Rightarrow> Inl e
          | Inr s \<Rightarrow>
             (case normalize_official segs of
                Inl e \<Rightarrow> Inl e
              | Inr out \<Rightarrow>
                 Inr (\<lparr>seg_text = Some t, seg_start = Some s,
                       seg_duration = Some (case seg_duration seg of Some d \<Rightarrow> d | None \<Rightarrow> 0),
                       seg_original = None\<rparr> # out))))"

text \<open>Lines 78 to 134, \<^verbatim>\<open>_fetch_youtube_transcript\<close>.\<close>

definition fetch_youtube_transcript ::
  "('x, 'm) libraries \<Rightarrow> 'x world \<Rightarrow> string \<Rightarrow> (exn + segment list) \<times> 'x world" where
  "fetch_youtube_transcript lib w video_id =
     (case probe_transcript lib w video_id of
        (None, w1) \<Rightarrow> (Inl (RuntimeError ''Unable to obtain transcript via youtube_transcript_api''), w1)
      | (Some transcript_list, w1) \<Rightarrow> (normalize_official transcript_list, w1))"

text \<open>
  Lines 182 to 219, \<^verbatim>\<open>_download_audio\<close>: the directory is made, the audio is
  downloaded, and the path of the \<^verbatim>\<open>mp3\<close> file is returned when that file exists.
\<close>

definition download_audio ::
  "('x, 'm) libraries \<Rightarrow> 'x world \<Rightarrow> string \<Rightarrow> (exn + string) \<times> 'x world \<times> acq_event list" where
  "download_audio lib w video_id =
     (let output_path = path_join (temp_dir lib) (video_id @ ''.mp3'') in
      case makedirs lib w (temp_dir lib) of
        (Inl e, w1) \<Rightarrow> (Inl e, w1, [])
      | (Inr u, w1) \<Rightarrow>
         (case ydl_download lib w1 video_id (temp_dir lib) of
            (Inl e, w2) \<Rightarrow> (Inl e, w2, [Download video_id])
          | (Inr u, w2) \<Rightarrow>
             (if \<not> path_exists w2 output_path
              then (Inl (FileNotFoundError (''Audio file not found after download: '' @ output_path)),
                    w2, [Download video_id])
              else (Inr output_path, w2, [Download video_id]))))"

text \<open>Lines 165 to 171: the segments of the result, with stripped text.\<close>

definition normalize_whisper :: "wseg \<Rightarrow> segment" where
  "normalize_whisper s =
     \<lparr>seg_text = Some (py_strip (w_text s)), seg_start = Some (w_start s),
      seg_duration = Some (w_end s - w_start s), seg_original = None\<rparr>"

text \<open>
  Lines 155 to 174, the body of the \<^verbatim>\<open>try\<close>: the model is loaded when the service has
  none and kept in the service; the audio file is transcribed.
\<close>

definition whisper_try ::
  "('x, 'm) libraries \<Rightarrow> 'm service \<Rightarrow> 'x world \<Rightarrow> string \<Rightarrow>
   (exn + segment list) \<times> 'm service \<times> 'x world \<times> acq_event list" where
  "whisper_try lib svc w audio_path =
     (case (case whisper_model svc of
              Some m \<Rightarrow> (Inr m, svc, w, [])
            | None \<Rightarrow>
               (case load_model lib w (whisper_model_size svc) of
                  (Inl e, w1) \<Rightarrow> (Inl e, svc, w1, [LoadModel (whisper_model_size svc)])
                | (Inr m, w1) \<Rightarrow>
                    (Inr m, svc\<lparr>whisper_model := Some m\<rparr>, w1, [LoadModel (whisper_model_size svc)]))) of
        (Inl e, svc1, w1, ev1) \<Rightarrow> (Inl e, svc1, w1, ev1)
      | (Inr m, svc1, w1, ev1) \<Rightarrow>
         (case transcribe lib w1 m audio_path of
            (Inl e, w2) \<Rightarrow> (Inl e, svc1, w2, ev1 @ [Transcribe audio_path])
          | (Inr segments, w2) \<Rightarrow>
              (Inr (map normalize_whisper segments), svc1, w2, ev1 @ [Transcribe audio_path])))"

text \<open>Lines 176 to 180, the \<^verbatim>\<open>finally\<close>: the audio file is removed when it exists.\<close>

definition whisper_finally :: "'x world \<Rightarrow> string \<Rightarrow> 'x world \<times> acq_event list" where
  "whisper_finally w audio_path =
     (if path_exists w audio_path then (os_remove w audio_path, [RemoveFile audio_path]) else (w, []))"

text \<open>
  Lines 136 to 180, \<^verbatim>\<open>_transcribe_with_whisper\<close>: the download is before the \<^verbatim>\<open>try\<close>, so
  its exception leaves without the \<^verbatim>\<open>finally\<close>; after it, the \<^verbatim>\<open>finally\<close> runs whether
  the body returned or raised.
\<close>

definition transcribe_with_whisper ::
  "('x, 'm) libraries \<Rightarrow> 'm service \<Rightarrow> 'x world \<Rightarrow> string \<Rightarrow>
   (exn + segment list) \<times> 'm service \<times> 'x world \<times> acq_event list" where
  "transcribe_with_whisper lib svc w video_id =
     (case download_audio lib w video_id of
        (Inl e, w1, ev1) \<Rightarrow> (Inl e, svc, w1, ev1)
      | (Inr audio_path, w1, ev1) \<Rightarrow>
         (case whisper_try lib svc w1 audio_path of
            (outcome, svc2, w2, ev2) \<Rightarrow>
              (case whisper_finally w2 audio_path of
                 (w3, ev3) \<Rightarrow> (outcome, svc2, w3, ev1 @ ev2 @ ev3))))"

text \<open>
  Lines 37 to 76, \<^verbatim>\<open>get_transcript\<close>: the official path; on any exception of it the
  offline path; on any exception of that the error result with the message. Both
  handlers catch \<^verbatim>\<open>Exception\<close>, so the function has no raising branch and its result is
  the dictionary.
\<close>

definition get_transcript ::
  "('x, 'm) libraries \<Rightarrow> 'm service \<Rightarrow> 'x world \<Rightarrow> string \<Rightarrow>
   acquisition_result \<times> 'm service \<times> 'x world \<times> acq_event list" where
  "get_transcript lib svc w video_id =
     (case fetch_youtube_transcript lib w video_id of
        (Inr transcript, w1) \<Rightarrow>
          (\<lparr>res_transcript = transcript, res_source = ''youtube_api'', res_success = True,
            res_error = None\<rparr>, svc, w1, [OfficialAttempt video_id])
      | (Inl e, w1) \<Rightarrow>
          (case transcribe_with_whisper lib svc w1 video_id of
             (Inr transcript, svc2, w2, ev) \<Rightarrow>
               (\<lparr>res_transcript = transcript, res_source = ''whisper'', res_success = True,
                 res_error = None\<rparr>, svc2, w2,
                OfficialAttempt video_id # WhisperAttempt video_id # ev)
           | (Inl e2, svc2, w2, ev) \<Rightarrow>
               (\<lparr>res_transcript = [], res_source = ''error'', res_success = False,
                 res_error = Some (exn_str e2)\<rparr>, svc2, w2,
                OfficialAttempt video_id # WhisperAttempt video_id # ev)))"

text \<open>
  Libraries for the examples: no official transcript, a download that creates the
  audio file, and a transcription that returns one segment, or that raises.
\<close>

definition offline_libraries :: "bool \<Rightarrow> (unit, unit) libraries" where
  "offline_libraries transcription_works =
     \<lparr>probe_transcript = (\<lambda>w video_id. (None, w)),
      temp_dir = ''./temp_audio'',
      makedirs = (\<lambda>w d. (Inr (), w)),
      ydl_download = (\<lambda>w video_id d. (Inr (), w\<lparr>files := insert (path_join d (video_id @ ''.mp3'')) (files w)\<rparr>)),
      load_model = (\<lambda>w size. (Inr (), w)),
      transcribe = (\<lambda>w m p.
        (if transcription_works then Inr [\<lparr>w_text = '' Hello there. '', w_start = 0, w_end = 2\<rparr>]
         else Inl (RuntimeError ''Failed to load audio''), w))\<rparr>"

text \<open>
  The same libraries with a transcription that fails on an assertion without a message,
  as a bare \<^verbatim>\<open>assert\<close> does.
\<close>

definition silent_libraries :: "(unit, unit) libraries" where
  "silent_libraries =
     (offline_libraries False)\<lparr>transcribe := (\<lambda>w m p. (Inl (OtherError ''AssertionError'' []), w))\<rparr>"

definition new_service :: "unit service" where
  "new_service = \<lparr>whisper_model_size = ''base'', whisper_model = None\<rparr>"

definition empty_world :: "unit world" where
  "empty_world = \<lparr>files = {}, ext = ()\<rparr>"

text \<open>Whether an event is the call of the offline path.\<close>

fun is_whisper_attempt :: "acq_event \<Rightarrow> bool" where
  "is_whisper_attempt (WhisperAttempt v) = True"
| "is_whisper_attempt e = False"

subsection \<open>Properties of the timestamp formatter\<close>

lemma digits10_small: "n < 10 \<Longrightarrow> digits10 n = [digit_char n]"
  by (simp add: digits10.simps)

lemma digits10_two: "10 \<le> n \<Longrightarrow> n < 100 \<Longrightarrow> digits10 n = [digit_char (n div 10), digit_char (n mod 10)]"
  by (subst digits10.simps) (simp add: digits10_small)

lemma fmt_02d_two_digits:
  assumes "0 \<le> k" "k < 100"
  shows "fmt_02d k = two_digits k"
proof (cases "nat k < 10")
  case True
  then have "digits10 (nat k) = [digit_char (nat k)]" by (rule digits10_small)
  moreover from True have "nat k div 10 = 0" "nat k mod 10 = nat k" by simp_all
  moreover have "digit_char 0 = CHR ''0''" by (simp add: digit_char_def)
  ultimately show ?thesis using assms
    by (simp add: fmt_02d_def py_str_int_def two_digits_def)
next
  case False
  with assms have "10 \<le> nat k" "nat k < 100" by simp_all
  then have "digits10 (nat k) = [digit_char (nat k div 10), digit_char (nat k mod 10)]"
    by (rule digits10_two)
  then show ?thesis using assms
    by (simp add: fmt_02d_def py_str_int_def two_digits_def)
qed

text \<open>
  Claim C8. For every non-negative number of seconds, the formatter truncates it to an
  integer \<open>s\<close> and computes hours \<open>s div 3600\<close>, minutes \<open>(s mod 3600) div 60\<close> and seconds
  \<open>s mod 60\<close>. With hours above zero it emits the hours unpadded, then minutes and seconds
  as two digits each; otherwise the minutes unpadded and the seconds as two digits.
  In particular 0 gives \<open>0:00\<close>, 65 gives \<open>1:05\<close> and 3661 gives \<open>1:01:01\<close>.
\<close>

theorem format_timestamp_rule:
  assumes "0 \<le> seconds"
  shows "py_int seconds = \<lfloor>seconds\<rfloor> \<and>
    format_timestamp seconds =
      (let s = \<lfloor>seconds\<rfloor>; hours = s div 3600; minutes = (s mod 3600) div 60; secs = s mod 60
       in if hours > 0
          then digits10 (nat hours) @ '':'' @ two_digits minutes @ '':'' @ two_digits secs
          else digits10 (nat minutes) @ '':'' @ two_digits secs) \<and>
    format_timestamp 0 = ''0:00'' \<and>
    format_timestamp 65 = ''1:05'' \<and>
    format_timestamp 3661 = ''1:01:01''"
proof -
  have s: "py_int seconds = \<lfloor>seconds\<rfloor>" using assms by (simp add: py_int_def)
  define n where "n = \<lfloor>seconds\<rfloor>"
  have m: "0 \<le> (n mod 3600) div 60" "(n mod 3600) div 60 < 100"
    by (simp_all add: pos_imp_zdiv_nonneg_iff)
  have c: "0 \<le> n mod 60" "n mod 60 < 100"
    by simp_all
  have general: "format_timestamp seconds =
      (let s = \<lfloor>seconds\<rfloor>; hours = s div 3600; minutes = (s mod 3600) div 60; secs = s mod 60
       in if hours > 0
          then digits10 (nat hours) @ '':'' @ two_digits minutes @ '':'' @ two_digits secs
          else digits10 (nat minutes) @ '':'' @ two_digits secs)"
    unfolding format_timestamp_def s Let_def n_def [symmetric]
    using m c by (simp add: fmt_02d_two_digits py_str_int_def)
  have e0: "format_timestamp 0 = ''0:00''"
    by (simp add: format_timestamp_def py_int_def py_str_int_def fmt_02d_def digits10.simps digit_char_def)
  have e1: "format_timestamp 65 = ''1:05''"
    by (simp add: format_timestamp_def py_int_def py_str_int_def fmt_02d_def digits10.simps digit_char_def)
  have e2: "format_timestamp 3661 = ''1:01:01''"
    by (simp add: format_timestamp_def py_int_def py_str_int_def fmt_02d_def digits10.simps digit_char_def)
  from s general e0 e1 e2 show ?thesis by blast
qed

theorem format_timestamp_rule_witness:
  "(0::real) \<le> 7325.75 \<and> py_int 7325.75 = 7325 \<and> format_timestamp 7325.75 = ''2:02:05''"
proof -
  have h: "(0::real) \<le> 7325.75" by simp
  from format_timestamp_rule [OF h] have "py_int 7325.75 = \<lfloor>7325.75::real\<rfloor>"
    and "format_timestamp 7325.75 =
      (let s = \<lfloor>7325.75::real\<rfloor>; hours = s div 3600; minutes = (s mod 3600) div 60; secs = s mod 60
       in if hours > 0
          then digits10 (nat hours) @ '':'' @ two_digits minutes @ '':'' @ two_digits secs
          else digits10 (nat minutes) @ '':'' @ two_digits secs)" by blast+
  then show ?thesis
    by (simp add: two_digits_def digits10.simps digit_char_def)
qed

subsection \<open>Properties of the identifier extraction\<close>

lemma starts_with_iff: "starts_with lit s \<longleftrightarrow> (\<exists>rest. s = lit @ rest)"
  unfolding starts_with_def by (metis append_eq_conv_conj append_take_drop_id)

lemma take_id_iff: "take_id r = Some g \<longleftrightarrow> token g \<and> (\<exists>rest. r = g @ rest)"
proof
  assume "take_id r = Some g"
  then have h: "11 \<le> length r" "list_all idchar (take 11 r)" "g = take 11 r"
    by (auto simp: take_id_def split: if_splits)
  then have "token g" by (simp add: token_def)
  moreover from h have "r = g @ drop 11 r" by simp
  ultimately show "token g \<and> (\<exists>rest. r = g @ rest)" by blast
next
  assume "token g \<and> (\<exists>rest. r = g @ rest)"
  then obtain rest where "token g" "r = g @ rest" by blast
  then show "take_id r = Some g" by (simp add: take_id_def token_def)
qed

lemma prefixes_exclusive: "\<not> (starts_with watch_prefix s \<and> starts_with short_prefix s)"
  by (auto simp: starts_with_iff watch_prefix_def short_prefix_def)

lemma url_pattern_at_iff:
  "url_pattern_at s = Some g \<longleftrightarrow>
     (\<exists>p rest. (p = watch_prefix \<or> p = short_prefix) \<and> token g \<and> s = p @ g @ rest)"
proof
  assume a: "url_pattern_at s = Some g"
  show "\<exists>p rest. (p = watch_prefix \<or> p = short_prefix) \<and> token g \<and> s = p @ g @ rest"
  proof (cases "starts_with watch_prefix s \<and> take_id (drop (length watch_prefix) s) = Some g")
    case True
    then obtain r where r: "s = watch_prefix @ r" by (auto simp: starts_with_iff)
    with True have "take_id r = Some g" by simp
    then obtain rest where "token g" "r = g @ rest" by (auto simp: take_id_iff)
    with r show ?thesis by blast
  next
    case False
    with a have b: "starts_with short_prefix s" "take_id (drop (length short_prefix) s) = Some g"
      by (auto simp: url_pattern_at_def split: if_splits option.splits)
    then obtain r where r: "s = short_prefix @ r" by (auto simp: starts_with_iff)
    with b have "take_id r = Some g" by simp
    then obtain rest where "token g" "r = g @ rest" by (auto simp: take_id_iff)
    with r show ?thesis by blast
  qed
next
  assume "\<exists>p rest. (p = watch_prefix \<or> p = short_prefix) \<and> token g \<and> s = p @ g @ rest"
  then obtain p rest where p: "p = watch_prefix \<or> p = short_prefix" and g: "token g"
    and s: "s = p @ g @ rest" by blast
  from g have t: "take_id (g @ rest) = Some g" by (auto simp: take_id_iff)
  from p show "url_pattern_at s = Some g"
  proof
    assume "p = watch_prefix"
    with s t show ?thesis by (simp add: url_pattern_at_def starts_with_def)
  next
    assume q: "p = short_prefix"
    with s have "starts_with short_prefix s" by (auto simp: starts_with_iff)
    with prefixes_exclusive have "\<not> starts_with watch_prefix s" by blast
    with q s t show ?thesis by (simp add: url_pattern_at_def starts_with_def)
  qed
qed

lemma url_occurrence_iff: "url_occurrence pre g s \<longleftrightarrow> (\<exists>r. s = pre @ r \<and> url_pattern_at r = Some g)"
  unfolding url_occurrence_def url_pattern_at_iff by blast

lemma re_search_url_hit: "url_pattern_at s = Some g \<Longrightarrow> re_search_url s = Some g"
  by (cases s) simp_all

lemma re_search_url_skip:
  "list_all (\<lambda>i. url_pattern_at (drop i (pre @ s)) = None) [0..<length pre] \<Longrightarrow>
   re_search_url (pre @ s) = re_search_url s"
proof (induction pre)
  case Nil
  then show ?case by simp
next
  case (Cons c pre)
  from Cons.prems have all: "\<forall>i<Suc (length pre). url_pattern_at (drop i (c # pre @ s)) = None"
    by (auto simp: list_all_iff simp del: upt_Suc)
  then have head: "url_pattern_at (c # pre @ s) = None" by force
  have "\<forall>i<length pre. url_pattern_at (drop i (pre @ s)) = None"
  proof (intro allI impI)
    fix i assume "i < length pre"
    with all have "url_pattern_at (drop (Suc i) (c # pre @ s)) = None" by blast
    then show "url_pattern_at (drop i (pre @ s)) = None" by simp
  qed
  then have "re_search_url (pre @ s) = re_search_url s"
    using Cons.IH by (simp add: list_all_iff)
  with head show ?case by simp
qed

lemma re_search_url_Some: "re_search_url s = Some g \<Longrightarrow> \<exists>pre. url_occurrence pre g s"
proof (induction s)
  case Nil
  then have "url_occurrence [] g []" by (simp add: url_occurrence_iff)
  then show ?case ..
next
  case (Cons c cs)
  show ?case
  proof (cases "url_pattern_at (c # cs)")
    case None
    with Cons.prems have "re_search_url cs = Some g" by simp
    with Cons.IH obtain pre where "url_occurrence pre g cs" by blast
    then have "url_occurrence (c # pre) g (c # cs)" by (auto simp: url_occurrence_iff)
    then show ?thesis ..
  next
    case (Some h)
    with Cons.prems have "url_pattern_at (c # cs) = Some g" by simp
    then have "url_occurrence [] g (c # cs)" by (simp add: url_occurrence_iff)
    then show ?thesis ..
  qed
qed

lemma re_search_url_None: "re_search_url s = None \<longleftrightarrow> (\<forall>pre g. \<not> url_occurrence pre g s)"
proof
  assume n: "re_search_url s = None"
  have "re_search_url (pre @ r) = None \<Longrightarrow> url_pattern_at r = None" for pre r
  proof (induction pre)
    case Nil
    then show ?case by (cases r) (auto split: option.splits)
  next
    case (Cons c pre)
    then show ?case by (auto split: option.splits)
  qed
  with n show "\<forall>pre g. \<not> url_occurrence pre g s" by (auto simp: url_occurrence_iff)
next
  assume "\<forall>pre g. \<not> url_occurrence pre g s"
  then show "re_search_url s = None"
    using re_search_url_Some by (cases "re_search_url s") blast+
qed

lemma re_search_url_total: "url_occurrence pre g s \<Longrightarrow> \<exists>h. re_search_url s = Some h \<and> token h"
proof -
  assume o: "url_occurrence pre g s"
  then have "re_search_url s \<noteq> None" by (auto simp: re_search_url_None)
  then obtain h where h: "re_search_url s = Some h" by blast
  then obtain q where "url_occurrence q h s" using re_search_url_Some by blast
  then have "token h" by (auto simp: url_occurrence_def)
  with h show ?thesis by blast
qed

lemma re_search_id_iff:
  "re_search_id s = Some g \<longleftrightarrow> token g \<and> (s = g \<or> s = g @ [CHR 0x0A])"
proof
  assume a: "re_search_id s = Some g"
  then have t: "take_id s = Some g" and d: "drop 11 s = [] \<or> drop 11 s = [CHR 0x0A]"
    by (auto simp: re_search_id_def split: option.splits if_splits)
  from t obtain rest where g: "token g" and s: "s = g @ rest" by (auto simp: take_id_iff)
  from g s have "drop 11 s = rest" by (simp add: token_def)
  with d s g show "token g \<and> (s = g \<or> s = g @ [CHR 0x0A])" by auto
next
  assume a: "token g \<and> (s = g \<or> s = g @ [CHR 0x0A])"
  then have "take_id s = Some g" by (auto simp: take_id_iff)
  moreover from a have "drop 11 s = [] \<or> drop 11 s = [CHR 0x0A]" by (auto simp: token_def)
  ultimately show "re_search_id s = Some g" by (auto simp: re_search_id_def)
qed

lemma token_no_url: "token t \<Longrightarrow> re_search_url t = None"
proof -
  assume t: "token t"
  have "\<not> url_occurrence pre g t" for pre g
  proof
    assume "url_occurrence pre g t"
    then obtain p rest where "p = watch_prefix \<or> p = short_prefix" "token g" "t = pre @ p @ g @ rest"
      by (auto simp: url_occurrence_def)
    then have "length t \<ge> 20" by (auto simp: token_def watch_prefix_def short_prefix_def)
    with t show False by (simp add: token_def)
  qed
  then show ?thesis by (simp add: re_search_url_None)
qed

lemma no_match_in_head:
  assumes "CHR ''y'' \<notin> set h"
  shows "list_all (\<lambda>i. url_pattern_at (drop i (h @ s)) = None) [0..<length h]"
proof -
  have "url_pattern_at (drop i (h @ s)) = None" if "i < length h" for i
  proof -
    from that obtain c cs where d: "drop i h = c # cs" by (cases "drop i h") auto
    then have "c \<in> set h" by (metis in_set_dropD list.set_intros(1))
    with assms have c: "c \<noteq> CHR ''y''" by blast
    from that d have "drop i (h @ s) = c # cs @ s" by simp
    with c show ?thesis
      by (simp add: url_pattern_at_def starts_with_def watch_prefix_def short_prefix_def)
  qed
  then show ?thesis by (simp add: list_all_iff)
qed

lemma url_form_extracted:
  assumes "CHR ''y'' \<notin> set h" "token t" "p = watch_prefix \<or> p = short_prefix"
  shows "extract_video_id (h @ p @ t @ rest) = Inr t"
proof -
  from assms(2,3) have "url_pattern_at (p @ t @ rest) = Some t"
    unfolding url_pattern_at_iff by blast
  then have "re_search_url (p @ t @ rest) = Some t" by (rule re_search_url_hit)
  moreover have "re_search_url (h @ p @ t @ rest) = re_search_url (p @ t @ rest)"
    using no_match_in_head [OF assms(1)] by (rule re_search_url_skip)
  ultimately show ?thesis by (simp add: extract_video_id_def)
qed

lemma bare_token_extracted: "token t \<Longrightarrow> extract_video_id t = Inr t"
proof -
  assume t: "token t"
  then have "re_search_url t = None" by (rule token_no_url)
  moreover from t have "re_search_id t = Some t" by (simp add: re_search_id_iff)
  ultimately show ?thesis by (simp add: extract_video_id_def)
qed

lemma no_pattern_rejected:
  assumes "\<forall>pre g. \<not> url_occurrence pre g s" "\<not> token s" "\<forall>g. token g \<longrightarrow> s \<noteq> g @ [CHR 0x0A]"
  shows "extract_video_id s = Inl (ValueError ''Invalid YouTube URL or video ID'')"
proof -
  from assms(1) have "re_search_url s = None" by (simp add: re_search_url_None)
  moreover have "re_search_id s = None"
  proof (cases "re_search_id s")
    case (Some g)
    then have "token g \<and> (s = g \<or> s = g @ [CHR 0x0A])" by (simp add: re_search_id_iff)
    with assms(2,3) show ?thesis by blast
  qed simp
  ultimately show ?thesis by (simp add: extract_video_id_def)
qed

lemma short_text_no_url: "length s < 20 \<Longrightarrow> re_search_url s = None"
proof -
  assume l: "length s < 20"
  have "\<not> url_occurrence pre g s" for pre g
  proof
    assume "url_occurrence pre g s"
    then obtain p rest where "p = watch_prefix \<or> p = short_prefix" "token g" "s = pre @ p @ g @ rest"
      by (auto simp: url_occurrence_def)
    then have "length s \<ge> 20" by (auto simp: token_def watch_prefix_def short_prefix_def)
    with l show False by simp
  qed
  then show ?thesis by (simp add: re_search_url_None)
qed

text \<open>
  The second pattern ends with \<^verbatim>\<open>$\<close>, not with \<^verbatim>\<open>\Z\<close>: a token followed by one line
  feed matches it, and the token is returned without the line feed.
\<close>

lemma trailing_line_feed_accepted: "token t \<Longrightarrow> extract_video_id (t @ [CHR 0x0A]) = Inr t"
proof -
  assume t: "token t"
  then have "length (t @ [CHR 0x0A]) < 20" by (simp add: token_def)
  then have "re_search_url (t @ [CHR 0x0A]) = None" by (rule short_text_no_url)
  moreover from t have "re_search_id (t @ [CHR 0x0A]) = Some t" by (simp add: re_search_id_iff)
  ultimately show ?thesis by (simp add: extract_video_id_def)
qed

lemma leftmost_iff:
  assumes "n \<le> length s"
  shows "list_all (\<lambda>i. url_pattern_at (drop i s) = None) [0..<n] \<longleftrightarrow>
         (\<forall>pre g. url_occurrence pre g s \<longrightarrow> n \<le> length pre)"
proof
  assume a: "list_all (\<lambda>i. url_pattern_at (drop i s) = None) [0..<n]"
  show "\<forall>pre g. url_occurrence pre g s \<longrightarrow> n \<le> length pre"
  proof (intro allI impI)
    fix pre g assume "url_occurrence pre g s"
    then obtain r where r: "s = pre @ r" "url_pattern_at r = Some g"
      by (auto simp: url_occurrence_iff)
    show "n \<le> length pre"
    proof (rule ccontr)
      assume "\<not> n \<le> length pre"
      with a have "url_pattern_at (drop (length pre) s) = None" by (simp add: list_all_iff)
      with r show False by simp
    qed
  qed
next
  assume b: "\<forall>pre g. url_occurrence pre g s \<longrightarrow> n \<le> length pre"
  have "url_pattern_at (drop i s) = None" if "i < n" for i
  proof (cases "url_pattern_at (drop i s)")
    case (Some g)
    have "s = take i s @ drop i s" by simp
    with Some have "url_occurrence (take i s) g s" unfolding url_occurrence_iff by blast
    with b have "n \<le> length (take i s)" by blast
    with that assms show ?thesis by simp
  qed simp
  then show "list_all (\<lambda>i. url_pattern_at (drop i s) = None) [0..<n]"
    by (simp add: list_all_iff)
qed

text \<open>
  Claim C6, as the code has it. For every token of eleven characters of the class, the
  extractor returns that token from an input in which the literal text
  \<^verbatim>\<open>youtube.com/watch?v=\<close> is directly followed by the token (a watch URL with a
  lower-case host and \<^verbatim>\<open>v=\<close> as its first query parameter), from an input in which
  \<^verbatim>\<open>youtu.be/\<close> is directly followed by the token, and from the bare token; the head
  before the literal text is any text without the letter y (as \<^verbatim>\<open>https://www.\<close>), and
  any text may follow the token. An input that holds no such URL occurrence, and that is
  neither a token nor a token followed by one final line feed, is rejected with the
  validation error. Nothing is stated here of a token followed by a line feed.
\<close>

theorem extract_video_id_forms:
  "(token t \<and> CHR ''y'' \<notin> set h \<longrightarrow>
      extract_video_id (h @ watch_prefix @ t @ rest) = Inr t \<and>
      extract_video_id (h @ short_prefix @ t @ rest) = Inr t \<and>
      extract_video_id t = Inr t) \<and>
   ((\<forall>pre g. \<not> url_occurrence pre g s) \<and> \<not> token s \<and> (\<forall>g. token g \<longrightarrow> s \<noteq> g @ [CHR 0x0A]) \<longrightarrow>
      extract_video_id s = Inl (ValueError ''Invalid YouTube URL or video ID''))"
  using url_form_extracted bare_token_extracted no_pattern_rejected by blast

theorem extract_video_id_forms_witness:
  "token ''dQw4w9WgXcQ'' \<and> CHR ''y'' \<notin> set ''https://www.'' \<and>
   extract_video_id ''https://www.youtube.com/watch?v=dQw4w9WgXcQ&t=42s'' = Inr ''dQw4w9WgXcQ'' \<and>
   extract_video_id ''https://www.youtu.be/dQw4w9WgXcQ&t=42s'' = Inr ''dQw4w9WgXcQ'' \<and>
   extract_video_id ''dQw4w9WgXcQ'' = Inr ''dQw4w9WgXcQ'' \<and>
   \<not> token ''not a video'' \<and>
   extract_video_id ''not a video'' = Inl (ValueError ''Invalid YouTube URL or video ID'')"
proof -
  have t: "token ''dQw4w9WgXcQ''" by (simp add: token_def idchar_def)
  have h: "CHR ''y'' \<notin> set ''https://www.''" by simp
  have n: "\<not> token ''not a video''" by (simp add: token_def idchar_def)
  have "re_search_url ''not a video'' = None"
    by (simp add: url_pattern_at_def starts_with_def watch_prefix_def short_prefix_def)
  then have o: "\<forall>pre g. \<not> url_occurrence pre g ''not a video''" by (rule re_search_url_None [THEN iffD1])
  have l: "\<forall>g. token g \<longrightarrow> ''not a video'' \<noteq> g @ [CHR 0x0A]"
  proof (intro allI impI notI)
    fix g assume "token g" "''not a video'' = g @ [CHR 0x0A]"
    then have "length ''not a video'' = length (g @ [CHR 0x0A])" by simp
    with \<open>token g\<close> show False by (simp add: token_def)
  qed
  from extract_video_id_forms [of "''dQw4w9WgXcQ''" "''https://www.''" "''&t=42s''" "''not a video''"]
    t h n o l
  show ?thesis by (simp add: watch_prefix_def short_prefix_def)
qed

text \<open>
  Claim C6 as the specification words it fails: a full watch URL that carries the token
  as its \<^verbatim>\<open>v=\<close> parameter after another query parameter holds no occurrence of the
  pattern, and extraction raises the validation error instead of returning the token.
\<close>

theorem watch_url_later_parameter_rejected:
  "token ''dQw4w9WgXcQ'' \<and>
   extract_video_id ''https://www.youtube.com/watch?feature=share&v=dQw4w9WgXcQ'' =
     Inl (ValueError ''Invalid YouTube URL or video ID'')"
  by (simp add: token_def idchar_def extract_video_id_def url_pattern_at_def starts_with_def
      watch_prefix_def short_prefix_def take_id_def re_search_id_def)

text \<open>
  Claim C10. The URL pattern is found by substring search and captures eleven
  characters: whenever the input holds one of the two prefixes followed by eleven or more
  characters of the class, with any text before and after, extraction succeeds with a
  token; and it returns the first eleven characters after the prefix, the rest of a
  longer value and the surrounding text being ignored, for the leftmost such occurrence
  (no occurrence starts earlier in the input).
\<close>

theorem extract_video_id_substring_capture:
  assumes "p = watch_prefix \<or> p = short_prefix" and "token ident"
  shows "(\<exists>g. extract_video_id (pre @ p @ ident @ rest) = Inr g \<and> token g) \<and>
         ((\<forall>pre' g. url_occurrence pre' g (pre @ p @ ident @ rest) \<longrightarrow> length pre \<le> length pre') \<longrightarrow>
            extract_video_id (pre @ p @ ident @ rest) = Inr ident)"
proof
  from assms have "url_occurrence pre ident (pre @ p @ ident @ rest)"
    unfolding url_occurrence_def by blast
  then obtain g where "re_search_url (pre @ p @ ident @ rest) = Some g" "token g"
    using re_search_url_total by blast
  then show "\<exists>g. extract_video_id (pre @ p @ ident @ rest) = Inr g \<and> token g"
    by (simp add: extract_video_id_def)
next
  show "(\<forall>pre' g. url_occurrence pre' g (pre @ p @ ident @ rest) \<longrightarrow> length pre \<le> length pre') \<longrightarrow>
          extract_video_id (pre @ p @ ident @ rest) = Inr ident"
  proof
    assume "\<forall>pre' g. url_occurrence pre' g (pre @ p @ ident @ rest) \<longrightarrow> length pre \<le> length pre'"
    moreover have "length pre \<le> length (pre @ p @ ident @ rest)" by simp
    ultimately have "list_all (\<lambda>i. url_pattern_at (drop i (pre @ p @ ident @ rest)) = None) [0..<length pre]"
      using leftmost_iff by blast
    then have "re_search_url (pre @ p @ ident @ rest) = re_search_url (p @ ident @ rest)"
      by (rule re_search_url_skip)
    moreover from assms have "url_pattern_at (p @ ident @ rest) = Some ident"
      unfolding url_pattern_at_iff by blast
    then have "re_search_url (p @ ident @ rest) = Some ident" by (rule re_search_url_hit)
    ultimately show "extract_video_id (pre @ p @ ident @ rest) = Inr ident"
      by (simp add: extract_video_id_def)
  qed
qed

theorem extract_video_id_substring_capture_witness:
  "token ''dQw4w9WgXcQ'' \<and>
   extract_video_id ''see youtu.be/dQw4w9WgXcQ_and_more or youtube.com/watch?v=AAAAAAAAAAA'' = Inr ''dQw4w9WgXcQ''"
proof -
  have t: "token ''dQw4w9WgXcQ''" by (simp add: token_def idchar_def)
  have "list_all (\<lambda>i. url_pattern_at
          (drop i (''see '' @ short_prefix @ ''dQw4w9WgXcQ'' @ ''_and_more or youtube.com/watch?v=AAAAAAAAAAA'')) = None)
          [0..<length ''see '']"
    by (rule no_match_in_head) simp
  then have l: "\<forall>pre' g. url_occurrence pre' g
      (''see '' @ short_prefix @ ''dQw4w9WgXcQ'' @ ''_and_more or youtube.com/watch?v=AAAAAAAAAAA'') \<longrightarrow>
      length ''see '' \<le> length pre'"
    by (subst (asm) leftmost_iff) simp_all
  from extract_video_id_substring_capture [of short_prefix "''dQw4w9WgXcQ''" "''see ''"
      "''_and_more or youtube.com/watch?v=AAAAAAAAAAA''"] t l
  show ?thesis by (simp add: short_prefix_def)
qed

subsection \<open>Properties of the structured analysis\<close>

lemma dropWhile_rev_suffix:
  assumes "u \<noteq> []" "\<not> P (hd u)"
  shows "dropWhile P (rev (dropWhile P (rev u))) = rev (dropWhile P (rev u))"
proof -
  define v where "v = dropWhile P (rev u)"
  obtain w where w: "rev u = w @ v" unfolding v_def by (metis takeWhile_dropWhile_id)
  have "dropWhile P (rev v) = rev v"
  proof (cases v)
    case Nil
    then show ?thesis by simp
  next
    case (Cons x xs)
    then have ne: "v \<noteq> []" by simp
    with w have "last v = last (rev u)" by simp
    also have "\<dots> = hd u" using assms(1) by (simp add: last_rev)
    finally have "\<not> P (hd (rev v))" using assms(2) ne by (simp add: hd_rev)
    with ne show ?thesis by (cases "rev v") auto
  qed
  then show ?thesis unfolding v_def .
qed

lemma py_strip_idem: "py_strip (py_strip s) = py_strip s"
proof -
  define u where "u = dropWhile is_space s"
  define v where "v = dropWhile is_space (rev u)"
  have a: "dropWhile is_space (rev v) = rev v"
  proof (cases "u = []")
    case True
    then show ?thesis by (simp add: v_def)
  next
    case False
    then have "\<not> is_space (hd u)" unfolding u_def by (rule hd_dropWhile)
    with False show ?thesis unfolding v_def by (rule dropWhile_rev_suffix)
  qed
  have b: "dropWhile is_space v = v" unfolding v_def by simp
  have "py_strip s = rev v" by (simp add: py_strip_def u_def v_def)
  moreover have "py_strip (rev v) = rev v" using a b by (simp add: py_strip_def)
  ultimately show ?thesis by simp
qed

lemma py_strip_pad:
  assumes "list_all is_space a" "list_all is_space b"
  shows "py_strip (a @ s @ b) = py_strip s"
proof -
  from assms(1) have 1: "dropWhile is_space (a @ s @ b) = dropWhile is_space (s @ b)"
    by (simp add: list_all_iff dropWhile_append2)
  have 2: "dropWhile is_space (rev (dropWhile is_space (s @ b))) =
           dropWhile is_space (rev (dropWhile is_space s))"
  proof (cases "list_all is_space s")
    case True
    with assms(2) have "dropWhile is_space (s @ b) = []" "dropWhile is_space s = []"
      by (auto simp: list_all_iff)
    then show ?thesis by (simp only:)
  next
    case False
    then obtain x where "x \<in> set s" "\<not> is_space x" by (auto simp: list_all_iff)
    then have "dropWhile is_space (s @ b) = dropWhile is_space s @ b"
      by (rule dropWhile_append1)
    moreover from assms(2) have "dropWhile is_space (rev b @ r) = dropWhile is_space r" for r
      by (intro dropWhile_append2) (simp add: list_all_iff)
    ultimately show ?thesis by simp
  qed
  from 1 2 show ?thesis by (simp add: py_strip_def)
qed

lemma py_strip_fixed:
  assumes "s \<noteq> []" "\<not> is_space (hd s)" "\<not> is_space (last s)"
  shows "py_strip s = s"
proof -
  from assms(1,2) have "dropWhile is_space s = s" by (cases s) auto
  moreover from assms(1,3) have "dropWhile is_space (rev s) = rev s"
    by (cases "rev s") (auto simp: hd_rev [symmetric])
  ultimately show ?thesis by (simp add: py_strip_def)
qed

lemma backtick_no_space: "\<not> is_space (CHR 0x60)"
  by (simp add: is_space_def)

lemma starts_with_append: "starts_with (a @ b) s \<Longrightarrow> starts_with a s"
  by (auto simp: starts_with_iff)

lemma clean_markdown_plain:
  assumes "\<not> starts_with fence (py_strip p)" "\<not> ends_with fence (py_strip p)"
  shows "py_strip (clean_markdown p) = py_strip p"
proof -
  from assms(1) have "\<not> starts_with json_fence (py_strip p)"
    unfolding json_fence_def using starts_with_append by blast
  with assms have "clean_markdown p = py_strip p" by (simp add: clean_markdown_def)
  then show ?thesis by (simp add: py_strip_idem)
qed

lemma clean_markdown_fenced:
  assumes "tag = ''json'' \<or> tag = []" "ws1 \<noteq> []" "list_all is_space ws1" "list_all is_space ws2"
  shows "py_strip (clean_markdown (fenced tag ws1 p ws2)) = py_strip p"
proof -
  define body where "body = ws1 @ p @ ws2"
  have w: "fenced tag ws1 p ws2 = fence @ tag @ body @ fence"
    by (simp add: fenced_def body_def)
  have hd_body: "is_space (hd (body @ fence))"
    using assms(2,3) by (cases ws1) (simp_all add: body_def)
  have s0: "py_strip (fence @ tag @ body @ fence) = fence @ tag @ body @ fence"
    by (rule py_strip_fixed) (simp_all add: fence_def backtick_no_space)
  have nf: "\<not> starts_with fence (body @ fence)"
  proof
    assume "starts_with fence (body @ fence)"
    then have "hd (body @ fence) = CHR 0x60" by (auto simp: starts_with_iff fence_def)
    with hd_body backtick_no_space show False by simp
  qed
  have ef: "ends_with fence (body @ fence)" by (simp add: ends_with_def)
  have tk: "take (length (body @ fence) - 3) (body @ fence) = body" by (simp add: fence_def)
  have "clean_markdown (fence @ tag @ body @ fence) = body"
  proof (cases "tag = ''json''")
    case True
    have j: "starts_with json_fence (fence @ ''json'' @ body @ fence)"
      by (simp add: starts_with_def json_fence_def)
    have d7: "drop 7 (fence @ ''json'' @ body @ fence) = body @ fence"
      by (simp add: fence_def)
    show ?thesis
      unfolding clean_markdown_def Let_def s0 unfolding True
      by (simp only: j d7 nf ef tk if_True if_False)
  next
    case False
    with assms(1) have t: "tag = []" by simp
    have nj: "\<not> starts_with json_fence (fence @ body @ fence)"
    proof
      assume "starts_with json_fence (fence @ body @ fence)"
      then have "starts_with ''json'' (body @ fence)"
        by (auto simp: starts_with_iff json_fence_def)
      then have "hd (body @ fence) = CHR ''j''" by (auto simp: starts_with_iff)
      with hd_body show False by (simp add: is_space_def)
    qed
    have f: "starts_with fence (fence @ body @ fence)" by (simp add: starts_with_def)
    have d3: "drop 3 (fence @ body @ fence) = body @ fence" by (simp add: fence_def)
    from s0 t have s0': "py_strip (fence @ body @ fence) = fence @ body @ fence" by simp
    show ?thesis
      unfolding clean_markdown_def Let_def t append_Nil s0'
      by (simp only: nj f d3 ef tk if_True if_False)
  qed
  then show ?thesis using assms(3,4) by (simp add: w body_def py_strip_pad)
qed

lemma one_segment_combined: "combine_transcript_with_timestamps one_segment = Inr ''[0:00] hello''"
  by (simp add: combine_transcript_with_timestamps_def one_segment_def timestamp_line_def subscript_def
      format_timestamp_def py_int_def py_str_int_def fmt_02d_def digits10.simps digit_char_def)

lemma generate_analysis_responds:
  "generate_analysis (responds response_text) loads transcript =
     (case combine_transcript_with_timestamps transcript of
        Inl e \<Rightarrow> Inl e
      | Inr full_text \<Rightarrow> analysis_of_response loads response_text)"
  by (simp add: generate_analysis_def responds_def split: sum.splits)

lemma validate_structure_missing:
  assumes "''chapters'' \<notin> set (map fst members) \<or> ''key_notes'' \<notin> set (map fst members)"
  shows "validate_structure (JObj members) = Inl (ValueError ''Invalid analysis structure'')"
  using assms by (cases "''chapters'' \<in> set (map fst members)") (auto simp: validate_structure_def)

text \<open>
  Claim C2, as the code has it. When the cleaned response text fails to parse as JSON
  (\<^verbatim>\<open>json.loads\<close> raises \<^verbatim>\<open>JSONDecodeError\<close>), \<^verbatim>\<open>generate_analysis\<close> returns the fixed
  fallback payload and no error reaches the caller. When it parses to an object without
  a \<^verbatim>\<open>chapters\<close> key or without a \<^verbatim>\<open>key_notes\<close> key, \<^verbatim>\<open>generate_analysis\<close> raises
  \<^verbatim>\<open>ValueError\<close> with the message \<^verbatim>\<open>Invalid analysis structure\<close>.
\<close>

theorem generate_analysis_malformed_output:
  assumes "combine_transcript_with_timestamps transcript = Inr full_text"
    and "generate_content full_text = Inr (Some response_text)"
  shows "(loads (py_strip (clean_markdown response_text)) = Inl (JSONDecodeError m) \<longrightarrow>
            generate_analysis generate_content loads transcript = Inr fallback_analysis) \<and>
         (loads (py_strip (clean_markdown response_text)) = Inr (JObj members) \<and>
            (''chapters'' \<notin> set (map fst members) \<or> ''key_notes'' \<notin> set (map fst members)) \<longrightarrow>
            generate_analysis generate_content loads transcript =
              Inl (ValueError ''Invalid analysis structure''))"
proof -
  from assms have g: "generate_analysis generate_content loads transcript =
      analysis_of_response loads response_text"
    by (simp add: generate_analysis_def)
  show ?thesis
    unfolding g by (auto simp: analysis_of_response_def validate_structure_missing)
qed

theorem generate_analysis_malformed_output_witness:
  "generate_analysis (responds ''I cannot help with that'') loads_examples one_segment = Inr fallback_analysis \<and>
   generate_analysis (responds (fenced ''json'' [CHR 0x0A] ''{}'' [CHR 0x0A])) loads_examples one_segment =
     Inl (ValueError ''Invalid analysis structure'')"
proof -
  have r: "responds t ''[0:00] hello'' = Inr (Some t)" for t by (simp add: responds_def)
  have 1: "loads_examples (py_strip (clean_markdown ''I cannot help with that'')) =
             Inl (JSONDecodeError ''Expecting value'')"
    by (simp add: loads_examples_def clean_markdown_def py_strip_def is_space_def starts_with_def
        ends_with_def fence_def json_fence_def both_keys_text_def)
  have 2: "loads_examples (py_strip (clean_markdown (fenced ''json'' [CHR 0x0A] ''{}'' [CHR 0x0A]))) =
             Inr (JObj [])"
    by (simp add: loads_examples_def clean_markdown_def py_strip_def is_space_def starts_with_def
        ends_with_def fence_def json_fence_def fenced_def)
  from generate_analysis_malformed_output [of one_segment "''[0:00] hello''"
      "responds ''I cannot help with that''" "''I cannot help with that''" loads_examples
      "''Expecting value''" "[]", OF one_segment_combined r] 1
  have a: "generate_analysis (responds ''I cannot help with that'') loads_examples one_segment =
             Inr fallback_analysis" by blast
  from generate_analysis_malformed_output [of one_segment "''[0:00] hello''"
      "responds (fenced ''json'' [CHR 0x0A] ''{}'' [CHR 0x0A])" "fenced ''json'' [CHR 0x0A] ''{}'' [CHR 0x0A]"
      loads_examples "[]" "[]", OF one_segment_combined r] 2
  have b: "generate_analysis (responds (fenced ''json'' [CHR 0x0A] ''{}'' [CHR 0x0A])) loads_examples
             one_segment = Inl (ValueError ''Invalid analysis structure'')" by simp
  from a b show ?thesis ..
qed

text \<open>
  Claim C2 as the specification words it fails: the response \<^verbatim>\<open>{}\<close> parses as JSON and
  has neither key, and the caller gets the \<^verbatim>\<open>ValueError\<close>, not the fallback.
\<close>

theorem generate_analysis_missing_keys_raises:
  "generate_analysis (responds ''{}'') loads_examples one_segment =
     Inl (ValueError ''Invalid analysis structure'') \<and>
   generate_analysis (responds ''{}'') loads_examples one_segment \<noteq> Inr fallback_analysis"
  by (simp add: generate_analysis_responds one_segment_combined analysis_of_response_def
      loads_examples_def clean_markdown_def py_strip_def is_space_def starts_with_def ends_with_def
      fence_def json_fence_def validate_structure_def)

text \<open>
  Claim C9, as the code has it. For every payload that, once stripped, neither starts
  nor ends with three backticks (no JSON text does), the response made of a fence with
  the language tag \<^verbatim>\<open>json\<close> (or with no tag), white space, the payload, white space and
  a closing fence gives the same result of \<^verbatim>\<open>generate_analysis\<close> as the payload alone.
\<close>

theorem fenced_json_same_as_unwrapped:
  assumes "tag = ''json'' \<or> tag = []"
    and "ws1 \<noteq> []" and "list_all is_space ws1" and "list_all is_space ws2"
    and "\<not> starts_with fence (py_strip payload)" and "\<not> ends_with fence (py_strip payload)"
  shows "generate_analysis (responds (fenced tag ws1 payload ws2)) loads transcript =
         generate_analysis (responds payload) loads transcript"
proof -
  have "py_strip (clean_markdown (fenced tag ws1 payload ws2)) = py_strip payload"
    using assms(1-4) by (rule clean_markdown_fenced)
  moreover have "py_strip (clean_markdown payload) = py_strip payload"
    using assms(5,6) by (rule clean_markdown_plain)
  ultimately have "analysis_of_response loads (fenced tag ws1 payload ws2) =
                   analysis_of_response loads payload"
    by (simp add: analysis_of_response_def)
  then show ?thesis by (simp add: generate_analysis_responds split: sum.splits)
qed

theorem fenced_json_same_as_unwrapped_witness:
  "generate_analysis (responds (fenced ''json'' [CHR 0x0A] both_keys_text [CHR 0x0A])) loads_examples one_segment =
     Inr (JObj [(''chapters'', JArr []), (''key_notes'', JArr [])]) \<and>
   generate_analysis (responds both_keys_text) loads_examples one_segment =
     Inr (JObj [(''chapters'', JArr []), (''key_notes'', JArr [])])"
proof -
  have p: "py_strip both_keys_text = both_keys_text"
    by (simp add: py_strip_def both_keys_text_def is_space_def)
  have 1: "\<not> starts_with fence (py_strip both_keys_text)"
    unfolding p by (simp add: starts_with_def fence_def both_keys_text_def)
  have 2: "\<not> ends_with fence (py_strip both_keys_text)"
    unfolding p by (simp add: ends_with_def fence_def both_keys_text_def)
  have 3: "list_all is_space [CHR 0x0A]" by (simp add: is_space_def)
  have c: "py_strip (clean_markdown both_keys_text) = both_keys_text"
    using clean_markdown_plain [OF 1 2] p by simp
  have l: "loads_examples both_keys_text = Inr (JObj [(''chapters'', JArr []), (''key_notes'', JArr [])])"
    by (simp add: loads_examples_def both_keys_text_def)
  have "generate_analysis (responds both_keys_text) loads_examples one_segment =
          Inr (JObj [(''chapters'', JArr []), (''key_notes'', JArr [])])"
    by (simp add: generate_analysis_responds one_segment_combined analysis_of_response_def c l
        validate_structure_def)
  with fenced_json_same_as_unwrapped [of "''json''" "[CHR 0x0A]" "[CHR 0x0A]" both_keys_text
      loads_examples one_segment] 1 2 3
  show ?thesis by simp
qed

text \<open>
  Claim C9 as the specification words it, for every language tag, fails: with the tag
  \<^verbatim>\<open>javascript\<close> the tag stays in front of the payload, the parse fails and the fallback
  is returned, while the payload alone is returned as parsed.
\<close>

theorem fenced_other_tag_differs:
  "generate_analysis (responds (fenced ''javascript'' [CHR 0x0A] both_keys_text [CHR 0x0A])) loads_examples
     one_segment = Inr fallback_analysis \<and>
   generate_analysis (responds both_keys_text) loads_examples one_segment =
     Inr (JObj [(''chapters'', JArr []), (''key_notes'', JArr [])]) \<and>
   fallback_analysis \<noteq> JObj [(''chapters'', JArr []), (''key_notes'', JArr [])]"
  by (simp add: generate_analysis_responds one_segment_combined analysis_of_response_def
      loads_examples_def clean_markdown_def py_strip_def is_space_def starts_with_def ends_with_def
      fence_def json_fence_def validate_structure_def fenced_def both_keys_text_def fallback_analysis_def)

subsection \<open>Properties of the translation\<close>

lemma batch_texts_present:
  "\<forall>seg\<in>set segs. seg_text seg \<noteq> None \<Longrightarrow> batch_texts segs = Inr (texts_of segs)"
  by (induction segs) (auto simp: texts_of_def subscript_def)

lemma texts_of_length: "length (texts_of segs) = length segs"
  by (simp add: texts_of_def)

lemma combine_preserved:
  "\<forall>seg\<in>set segs. well_formed seg \<Longrightarrow> length segs \<le> length ts \<Longrightarrow>
   \<exists>out. combine segs ts = Inr out \<and> list_all2 preserved segs out"
proof (induction segs arbitrary: ts)
  case Nil
  then show ?case by simp
next
  case (Cons seg segs)
  then obtain t ts' where ts: "ts = t # ts'" by (cases ts) auto
  with Cons.prems have "\<forall>seg\<in>set segs. well_formed seg" "length segs \<le> length ts'" by simp_all
  with Cons.IH obtain out where out: "combine segs ts' = Inr out" "list_all2 preserved segs out" by blast
  from Cons.prems have "well_formed seg" by simp
  then obtain s d where sd: "seg_start seg = Some s" "seg_duration seg = Some d"
    by (auto simp: well_formed_def)
  then have "preserved seg \<lparr>seg_text = Some t, seg_start = Some s, seg_duration = Some d,
      seg_original = Some (original_of seg)\<rparr>"
    by (simp add: preserved_def)
  with sd ts out show ?case by (simp add: subscript_def)
qed

lemma combine_same_texts:
  "\<forall>seg\<in>set segs. well_formed seg \<Longrightarrow> combine segs (texts_of segs) = Inr (map passed_through segs)"
proof (induction segs)
  case Nil
  then show ?case by (simp add: texts_of_def)
next
  case (Cons seg segs)
  then have ih: "combine segs (texts_of segs) = Inr (map passed_through segs)" by simp
  from Cons.prems have "well_formed seg" by simp
  then obtain t s d where f: "seg_text seg = Some t" "seg_start seg = Some s" "seg_duration seg = Some d"
    by (auto simp: well_formed_def)
  then have "\<lparr>seg_text = Some t, seg_start = Some s, seg_duration = Some d,
              seg_original = Some (original_of seg)\<rparr> = passed_through seg"
    by (simp add: passed_through_def)
  with f ih show ?case by (simp add: texts_of_def subscript_def)
qed

lemma translate_batch_failed:
  "texts \<noteq> [] \<Longrightarrow> translate_list env w texts target_lang = (Inl e, w1) \<Longrightarrow>
   translate_batch env w texts target_lang = (texts, w1, [TranslateCall texts target_lang])"
  by (simp add: translate_batch_def)

lemma translate_batch_result:
  assumes "texts \<noteq> []" "translate_batch env w texts target_lang = (res, w1, ev)"
  shows "ev = [TranslateCall texts target_lang]"
    and "answers_every_text env target_lang \<Longrightarrow> length texts \<le> length res"
proof -
  obtain r w' where c: "translate_list env w texts target_lang = (r, w')"
    by (cases "translate_list env w texts target_lang")
  with assms show "ev = [TranslateCall texts target_lang]"
    by (cases r) (auto simp: translate_batch_def)
  assume "answers_every_text env target_lang"
  with c assms show "length texts \<le> length res"
    by (cases r) (auto simp: translate_batch_def answers_every_text_def)
qed

lemma translate_loop_total:
  "answers_every_text env target_lang \<Longrightarrow> \<forall>seg\<in>set remaining. well_formed seg \<Longrightarrow>
   \<exists>outs w2 ev. translate_loop env target_lang w remaining = (Inr outs, w2, ev) \<and>
                list_all2 preserved remaining outs \<and> loop_events ev"
proof (induction env target_lang w remaining rule: translate_loop.induct)
  case (1 env target_lang w remaining)
  show ?case
  proof (cases "remaining = []")
    case True
    then show ?thesis by (simp add: translate_loop.simps loop_events_def)
  next
    case False
    define batch where "batch = take batch_size remaining"
    define rest where "rest = drop batch_size remaining"
    from "1.prems"(2) have wfb: "\<forall>seg\<in>set batch. well_formed seg"
      and wfr: "\<forall>seg\<in>set rest. well_formed seg"
      unfolding batch_def rest_def by (auto dest: in_set_takeD in_set_dropD)
    from wfb have bt: "batch_texts batch = Inr (texts_of batch)"
      by (intro batch_texts_present) (simp add: well_formed_def)
    from False have ne: "texts_of batch \<noteq> []"
      by (simp add: texts_of_def batch_def batch_size_def)
    obtain tt w1 ev1 where tb: "translate_batch env w (texts_of batch) target_lang = (tt, w1, ev1)"
      by (cases "translate_batch env w (texts_of batch) target_lang") auto
    have ev1: "ev1 = [TranslateCall (texts_of batch) target_lang]"
      using ne tb by (rule translate_batch_result(1))
    have len: "length batch \<le> length tt"
      using translate_batch_result(2) [OF ne tb "1.prems"(1)] by (simp add: texts_of_length)
    from combine_preserved [OF wfb len] obtain out
      where co: "combine batch tt = Inr out" and po: "list_all2 preserved batch out" by blast
    from "1.IH" [OF False bt [unfolded batch_def] tb [unfolded batch_def, symmetric] refl co [unfolded batch_def] "1.prems"(1)] wfr
    obtain outs w2 ev2 where
      rec: "translate_loop env target_lang w1 rest = (Inr outs, w2, ev2)"
      and pr: "list_all2 preserved rest outs" and le: "loop_events ev2"
      unfolding batch_def rest_def by blast
    have "translate_loop env target_lang w remaining =
          (Inr (out @ outs), w2, ev1 @ (if rest \<noteq> [] then [Sleep 0.5] else []) @ ev2)"
      using False bt tb co rec
      by (subst translate_loop.simps) (simp add: batch_def rest_def)
    moreover from po pr have "list_all2 preserved (batch @ rest) (out @ outs)"
      by (rule list_all2_appendI)
    then have "list_all2 preserved remaining (out @ outs)" by (simp add: batch_def rest_def)
    moreover from le ev1 have "loop_events (ev1 @ (if rest \<noteq> [] then [Sleep 0.5] else []) @ ev2)"
      by (simp add: loop_events_def)
    ultimately show ?thesis by blast
  qed
qed

lemma failed_batch_step:
  assumes "\<forall>seg\<in>set remaining. well_formed seg" and "answers_every_text env target_lang"
    and "remaining \<noteq> []"
    and "translate_list env w (texts_of (take batch_size remaining)) target_lang = (Inl e, w1)"
  shows "\<exists>outs w2 ev.
           translate_loop env target_lang w1 (drop batch_size remaining) = (Inr outs, w2, ev) \<and>
           list_all2 preserved (drop batch_size remaining) outs \<and> loop_events ev \<and>
           translate_loop env target_lang w remaining =
             (Inr (map passed_through (take batch_size remaining) @ outs), w2,
              TranslateCall (texts_of (take batch_size remaining)) target_lang #
              (if drop batch_size remaining \<noteq> [] then [Sleep 0.5] else []) @ ev)"
proof -
  define batch where "batch = take batch_size remaining"
  define rest where "rest = drop batch_size remaining"
  from assms(1) have wfb: "\<forall>seg\<in>set batch. well_formed seg"
    and wfr: "\<forall>seg\<in>set rest. well_formed seg"
    unfolding batch_def rest_def by (auto dest: in_set_takeD in_set_dropD)
  from wfb have bt: "batch_texts batch = Inr (texts_of batch)"
    by (intro batch_texts_present) (simp add: well_formed_def)
  from assms(3) have ne: "texts_of batch \<noteq> []"
    by (simp add: texts_of_def batch_def batch_size_def)
  from ne assms(4) have tb: "translate_batch env w (texts_of batch) target_lang =
      (texts_of batch, w1, [TranslateCall (texts_of batch) target_lang])"
    unfolding batch_def by (rule translate_batch_failed)
  from wfb have co: "combine batch (texts_of batch) = Inr (map passed_through batch)"
    by (rule combine_same_texts)
  from translate_loop_total [OF assms(2) wfr] obtain outs w2 ev where
    rec: "translate_loop env target_lang w1 rest = (Inr outs, w2, ev)"
    and pr: "list_all2 preserved rest outs" and le: "loop_events ev" by blast
  have "translate_loop env target_lang w remaining =
          (Inr (map passed_through batch @ outs), w2,
           TranslateCall (texts_of batch) target_lang # (if rest \<noteq> [] then [Sleep 0.5] else []) @ ev)"
    using assms(3) bt tb co rec
    by (subst translate_loop.simps) (simp add: batch_def rest_def)
  with rec pr le show ?thesis unfolding batch_def rest_def by blast
qed

lemma translate_loop_append:
  "length earlier mod batch_size = 0 \<Longrightarrow>
   translate_loop env target_lang w earlier = (Inr outs0, w0, ev0) \<Longrightarrow>
   translate_loop env target_lang w0 remaining = (Inr outs, w2, ev) \<Longrightarrow>
   translate_loop env target_lang w (earlier @ remaining) =
     (Inr (outs0 @ outs), w2,
      ev0 @ (if earlier \<noteq> [] \<and> remaining \<noteq> [] then [Sleep 0.5] else []) @ ev)"
proof (induction env target_lang w earlier arbitrary: outs0 ev0 rule: translate_loop.induct)
  case (1 env target_lang w earlier)
  show ?case
  proof (cases "earlier = []")
    case True
    with "1.prems"(2) have "outs0 = []" "w0 = w" "ev0 = []"
      by (simp_all add: translate_loop.simps)
    with True "1.prems"(3) show ?thesis by simp
  next
    case False
    with "1.prems"(1) have len: "batch_size \<le> length earlier"
      by (metis length_0_conv mod_less not_le_imp_less)
    then have tk: "take batch_size (earlier @ remaining) = take batch_size earlier"
      and dr: "drop batch_size (earlier @ remaining) = drop batch_size earlier @ remaining"
      by simp_all
    from len "1.prems"(1) have lm: "length (drop batch_size earlier) mod batch_size = 0"
      by (simp add: le_mod_geq)
    from "1.prems"(2) False obtain texts where
      bt: "batch_texts (take batch_size earlier) = Inr texts"
      by (subst (asm) translate_loop.simps) (auto split: sum.splits)
    obtain tt w1 ev1 where tb: "translate_batch env w texts target_lang = (tt, w1, ev1)"
      by (cases "translate_batch env w texts target_lang") auto
    from "1.prems"(2) False bt tb obtain out where
      co: "combine (take batch_size earlier) tt = Inr out"
      by (subst (asm) translate_loop.simps) (auto split: sum.splits)
    obtain r w' ev' where rc: "translate_loop env target_lang w1 (drop batch_size earlier) = (r, w', ev')"
      by (cases "translate_loop env target_lang w1 (drop batch_size earlier)") auto
    from "1.prems"(2) False bt tb co rc obtain outs' where
      r: "r = Inr outs'" and o0: "outs0 = out @ outs'" and w': "w' = w0"
      and e0: "ev0 = ev1 @ (if drop batch_size earlier \<noteq> [] then [Sleep 0.5] else []) @ ev'"
      by (subst (asm) translate_loop.simps) (auto split: sum.splits)
    from "1.IH" [OF False bt tb [symmetric] refl co lm rc [unfolded r w'] "1.prems"(3)]
    have ih: "translate_loop env target_lang w1 (drop batch_size earlier @ remaining) =
        (Inr (outs' @ outs), w2,
         ev' @ (if drop batch_size earlier \<noteq> [] \<and> remaining \<noteq> [] then [Sleep 0.5] else []) @ ev)" .
    have ne: "earlier @ remaining \<noteq> []" using False by simp
    have em: "length earlier \<le> batch_size \<Longrightarrow> ev' = []"
      using rc by (simp add: translate_loop.simps)
    show ?thesis
      using ne bt tb co ih False em
      by (subst translate_loop.simps) (simp add: tk dr o0 e0 del: take_append drop_append)
  qed
qed

lemma translate_loop_first_call:
  assumes "remaining \<noteq> []" and "\<forall>seg\<in>set (take batch_size remaining). seg_text seg \<noteq> None"
  shows "\<exists>result w2 ev.
           translate_loop env target_lang w remaining =
             (result, w2, TranslateCall (texts_of (take batch_size remaining)) target_lang # ev)"
proof -
  define texts where "texts = texts_of (take batch_size remaining)"
  from assms(2) have bt: "batch_texts (take batch_size remaining) = Inr texts"
    unfolding texts_def by (rule batch_texts_present)
  from assms(1) have ne: "texts \<noteq> []" by (simp add: texts_def texts_of_def batch_size_def)
  obtain tt w1 ev1 where tb: "translate_batch env w texts target_lang = (tt, w1, ev1)"
    by (cases "translate_batch env w texts target_lang") auto
  with ne have ev1: "ev1 = [TranslateCall texts target_lang]" by (rule translate_batch_result(1))
  obtain r w' ev' where rc: "translate_loop env target_lang w1 (drop batch_size remaining) = (r, w', ev')"
    by (cases "translate_loop env target_lang w1 (drop batch_size remaining)") auto
  show ?thesis
  proof (cases "combine (take batch_size remaining) tt")
    case (Inl e)
    with assms(1) bt tb ev1 have "translate_loop env target_lang w remaining =
        (Inl e, w1, TranslateCall texts target_lang # [])"
      by (subst translate_loop.simps) simp
    then show ?thesis unfolding texts_def by blast
  next
    case (Inr out)
    with assms(1) bt tb ev1 rc have "translate_loop env target_lang w remaining =
        (case r of Inl e \<Rightarrow> Inl e | Inr outs \<Rightarrow> Inr (out @ outs), w',
         TranslateCall texts target_lang #
           ((if drop batch_size remaining \<noteq> [] then [Sleep 0.5] else []) @ ev'))"
      by (subst translate_loop.simps) simp
    then show ?thesis unfolding texts_def by blast
  qed
qed

lemma one_segment_well_formed: "\<forall>seg\<in>set one_segment. well_formed seg"
  by (simp add: one_segment_def well_formed_def)

lemma two_segments_well_formed: "\<forall>seg\<in>set two_segments. well_formed seg"
  by (simp add: two_segments_def well_formed_def)

lemma failing_client_answers: "answers_every_text failing_client target_lang"
  by (simp add: answers_every_text_def failing_client_def)

lemma tagging_client_answers: "answers_every_text tagging_client target_lang"
  by (auto simp: answers_every_text_def tagging_client_def split: if_splits)

text \<open>
  Claim C1, as the code has it. For every transcript and every batch of it whose
  translation call fails (the segments \<open>earlier\<close> are the whole batches before it, and
  \<open>w0\<close> is the state in which the loop over them leaves the outside world),
  \<^verbatim>\<open>translate_transcript\<close> makes that call once, with no retry, no sleep of one second and
  no new client, and emits the segments of the batch with their input texts; the
  segments before and after are all emitted, and the transcript is not aborted.
\<close>

theorem failed_batch_passed_through_once:
  assumes "\<forall>seg\<in>set (earlier @ remaining). well_formed seg"
    and "answers_every_text env target_lang"
    and "length earlier mod batch_size = 0" and "remaining \<noteq> []"
    and "translate_loop env target_lang (new_client env w) earlier = (Inr outs0, w0, ev0)"
    and "translate_list env w0 (texts_of (take batch_size remaining)) target_lang = (Inl e, w1)"
  shows "\<exists>outs w2 ev.
           translate_transcript env w (earlier @ remaining) target_lang =
             (Inr (outs0 @ map passed_through (take batch_size remaining) @ outs), w2,
              NewClient # ev0 @ (if earlier \<noteq> [] then [Sleep 0.5] else []) @
              TranslateCall (texts_of (take batch_size remaining)) target_lang #
              (if drop batch_size remaining \<noteq> [] then [Sleep 0.5] else []) @ ev) \<and>
           length outs0 = length earlier \<and> length outs = length (drop batch_size remaining) \<and>
           loop_events ev0 \<and> loop_events ev"
proof -
  from assms(1) have wfe: "\<forall>seg\<in>set earlier. well_formed seg"
    and wfr: "\<forall>seg\<in>set remaining. well_formed seg" by simp_all
  from translate_loop_total [OF assms(2) wfe, of "new_client env w"] assms(5)
  have l0: "length outs0 = length earlier" and e0: "loop_events ev0"
    by (auto dest: list_all2_lengthD)
  from failed_batch_step [OF wfr assms(2,4,6)] obtain outs w2 ev where
    pr: "list_all2 preserved (drop batch_size remaining) outs" and le: "loop_events ev"
    and st: "translate_loop env target_lang w0 remaining =
             (Inr (map passed_through (take batch_size remaining) @ outs), w2,
              TranslateCall (texts_of (take batch_size remaining)) target_lang #
              (if drop batch_size remaining \<noteq> [] then [Sleep 0.5] else []) @ ev)"
    by blast
  from translate_loop_append [OF assms(3,5) st] assms(4)
  have "translate_transcript env w (earlier @ remaining) target_lang =
          (Inr (outs0 @ map passed_through (take batch_size remaining) @ outs), w2,
           NewClient # ev0 @ (if earlier \<noteq> [] then [Sleep 0.5] else []) @
           TranslateCall (texts_of (take batch_size remaining)) target_lang #
           (if drop batch_size remaining \<noteq> [] then [Sleep 0.5] else []) @ ev)"
    by (simp add: translate_transcript_def)
  moreover from pr have "length outs = length (drop batch_size remaining)"
    by (auto dest: list_all2_lengthD)
  ultimately show ?thesis using l0 e0 le by blast
qed

theorem failed_batch_passed_through_once_witness:
  "translate_transcript failing_client 0 two_segments ''vi'' =
     (Inr [\<lparr>seg_text = Some ''hello'', seg_start = Some 0, seg_duration = Some 2, seg_original = Some ''hello''\<rparr>,
           \<lparr>seg_text = Some ''hallo'', seg_start = Some 2, seg_duration = Some 3,
             seg_original = Some ''hello again''\<rparr>],
      1, [NewClient, TranslateCall [''hello'', ''hallo''] ''vi''])"
proof -
  have wf: "\<forall>seg\<in>set ([] @ two_segments). well_formed seg"
    using two_segments_well_formed by simp
  have m: "length ([] :: segment list) mod batch_size = 0" by simp
  have ne: "two_segments \<noteq> []" by (simp add: two_segments_def)
  have r0: "translate_loop failing_client ''vi'' (new_client failing_client 0) [] = (Inr [], 0, [])"
    by (simp add: translate_loop.simps failing_client_def)
  have f: "translate_list failing_client 0 (texts_of (take batch_size two_segments)) ''vi'' =
             (Inl (OtherError ''ConnectError'' ''connection reset''), 1)"
    by (simp add: failing_client_def)
  from failed_batch_passed_through_once [OF wf failing_client_answers m ne r0 f]
  obtain outs w2 ev where
    t: "translate_transcript failing_client 0 ([] @ two_segments) ''vi'' =
          (Inr ([] @ map passed_through (take batch_size two_segments) @ outs), w2,
           NewClient # [] @ (if ([] :: segment list) \<noteq> [] then [Sleep 0.5] else []) @
           TranslateCall (texts_of (take batch_size two_segments)) ''vi'' #
           (if drop batch_size two_segments \<noteq> [] then [Sleep 0.5] else []) @ ev)"
    and l: "length outs = length (drop batch_size two_segments)" by blast
  from l have o: "outs = []" by (simp add: two_segments_def batch_size_def)
  have d: "translate_transcript failing_client 0 two_segments ''vi'' =
     (Inr [\<lparr>seg_text = Some ''hello'', seg_start = Some 0, seg_duration = Some 2, seg_original = Some ''hello''\<rparr>,
           \<lparr>seg_text = Some ''hallo'', seg_start = Some 2, seg_duration = Some 3,
             seg_original = Some ''hello again''\<rparr>],
      1, [NewClient, TranslateCall [''hello'', ''hallo''] ''vi''])"
    by (simp add: translate_transcript_def translate_loop.simps two_segments_def batch_size_def
        subscript_def translate_batch_def failing_client_def original_of_def)
  from t o d show ?thesis by simp
qed

text \<open>
  Claim C1 as the specification words it fails: with a client whose every call
  raises, the one batch of a one-segment transcript is called once. The outside world
  has counted one call; the trace holds one call, no sleep and no second client.
\<close>

theorem failed_batch_not_retried:
  "translate_transcript failing_client 0 one_segment ''vi'' =
     (Inr [\<lparr>seg_text = Some ''hello'', seg_start = Some 0, seg_duration = Some 2, seg_original = Some ''hello''\<rparr>],
      1, [NewClient, TranslateCall [''hello''] ''vi''])"
  by (simp add: translate_transcript_def translate_loop.simps one_segment_def batch_size_def
      subscript_def translate_batch_def failing_client_def original_of_def)

text \<open>
  The retry that the specification describes is the one of \<^verbatim>\<open>translate_text\<close>, which
  \<^verbatim>\<open>translate_transcript\<close> does not call: three calls, a sleep of one second and a new
  client after the first and the second, and the text itself in the end.
\<close>

lemma translate_text_retries:
  "translate_text failing_client 0 ''hello'' ''vi'' 3 =
     (''hello'', 3,
      [TranslateCall [''hello''] ''vi'', Sleep 1, NewClient,
       TranslateCall [''hello''] ''vi'', Sleep 1, NewClient,
       TranslateCall [''hello''] ''vi''])"
  by (simp add: translate_text_def py_strip_def is_space_def numeral_3_eq_3 failing_client_def)

text \<open>
  Claim C4. For every list of segments that carry a text, a start and a duration, and
  every target language, \<^verbatim>\<open>translate_transcript\<close> returns a list of the same length
  in the same order; each output segment has the start and the duration of the input
  segment at its place, and as original the original of that input segment when it has
  one and its text otherwise. The library is taken to answer a list with one result per
  text.
\<close>

theorem translate_transcript_preserves_frame:
  assumes "\<forall>seg\<in>set transcript. well_formed seg" and "answers_every_text env target_lang"
  shows "\<exists>out w1 ev.
           translate_transcript env w transcript target_lang = (Inr out, w1, ev) \<and>
           length out = length transcript \<and>
           (\<forall>i<length transcript.
              seg_start (out ! i) = seg_start (transcript ! i) \<and>
              seg_duration (out ! i) = seg_duration (transcript ! i) \<and>
              seg_original (out ! i) =
                (case seg_original (transcript ! i) of
                   Some orig \<Rightarrow> Some orig
                 | None \<Rightarrow> seg_text (transcript ! i)))"
proof -
  from translate_loop_total [OF assms(2,1), of "new_client env w"] obtain outs w2 ev where
    r: "translate_loop env target_lang (new_client env w) transcript = (Inr outs, w2, ev)"
    and p: "list_all2 preserved transcript outs" by blast
  from p have len: "length outs = length transcript" by (auto dest: list_all2_lengthD)
  have "seg_start (outs ! i) = seg_start (transcript ! i) \<and>
        seg_duration (outs ! i) = seg_duration (transcript ! i) \<and>
        seg_original (outs ! i) =
          (case seg_original (transcript ! i) of
             Some orig \<Rightarrow> Some orig
           | None \<Rightarrow> seg_text (transcript ! i))" if "i < length transcript" for i
  proof -
    from p that have q: "preserved (transcript ! i) (outs ! i)" by (rule list_all2_nthD)
    from that assms(1) have "well_formed (transcript ! i)" by simp
    then obtain t where "seg_text (transcript ! i) = Some t" by (auto simp: well_formed_def)
    with q show ?thesis by (auto simp: preserved_def original_of_def split: option.splits)
  qed
  with r len show ?thesis by (simp add: translate_transcript_def)
qed

theorem translate_transcript_preserves_frame_witness:
  "translate_transcript tagging_client 0 two_segments ''vi'' =
     (Inr [\<lparr>seg_text = Some ''vi:hello'', seg_start = Some 0, seg_duration = Some 2,
             seg_original = Some ''hello''\<rparr>,
           \<lparr>seg_text = Some ''vi:hallo'', seg_start = Some 2, seg_duration = Some 3,
             seg_original = Some ''hello again''\<rparr>],
      1, [NewClient, TranslateCall [''hello'', ''hallo''] ''vi'']) \<and>
   (\<exists>out w1 ev. translate_transcript tagging_client 0 two_segments ''vi'' = (Inr out, w1, ev) \<and>
      length out = 2 \<and> seg_original (out ! 0) = Some ''hello'' \<and>
      seg_original (out ! 1) = Some ''hello again'' \<and> seg_start (out ! 1) = Some 2)"
proof -
  from translate_transcript_preserves_frame [OF two_segments_well_formed tagging_client_answers, of 0 "''vi''"]
  obtain out w1 ev where
    t: "translate_transcript tagging_client 0 two_segments ''vi'' = (Inr out, w1, ev)"
    and l: "length out = length two_segments"
    and a: "\<forall>i<length two_segments.
              seg_start (out ! i) = seg_start (two_segments ! i) \<and>
              seg_duration (out ! i) = seg_duration (two_segments ! i) \<and>
              seg_original (out ! i) =
                (case seg_original (two_segments ! i) of
                   Some orig \<Rightarrow> Some orig
                 | None \<Rightarrow> seg_text (two_segments ! i))" by blast
  from a have "seg_original (out ! 0) = Some ''hello''"
    and "seg_original (out ! 1) = Some ''hello again''" and "seg_start (out ! 1) = Some 2"
    by (simp_all add: two_segments_def)
  with t l have "\<exists>out w1 ev. translate_transcript tagging_client 0 two_segments ''vi'' = (Inr out, w1, ev) \<and>
      length out = 2 \<and> seg_original (out ! 0) = Some ''hello'' \<and>
      seg_original (out ! 1) = Some ''hello again'' \<and> seg_start (out ! 1) = Some 2"
    by (simp add: two_segments_def)
  moreover have "translate_transcript tagging_client 0 two_segments ''vi'' =
     (Inr [\<lparr>seg_text = Some ''vi:hello'', seg_start = Some 0, seg_duration = Some 2,
             seg_original = Some ''hello''\<rparr>,
           \<lparr>seg_text = Some ''vi:hallo'', seg_start = Some 2, seg_duration = Some 3,
             seg_original = Some ''hello again''\<rparr>],
      1, [NewClient, TranslateCall [''hello'', ''hallo''] ''vi''])"
    by (simp add: translate_transcript_def translate_loop.simps two_segments_def batch_size_def
        subscript_def translate_batch_def tagging_client_def original_of_def validate_language_def
        LANGUAGES_def py_lower_char_def)
  ultimately show ?thesis by blast
qed

text \<open>
  Claim C7, as the code has it. The translation makes no test of the target language:
  for every language code, in the table or not, and every transcript that is not empty,
  the endpoint creates the client and passes the code as it is to the translation call
  with the texts of the first batch. \<^verbatim>\<open>validate_language\<close> is called nowhere.
\<close>

theorem translate_passes_any_language:
  assumes "transcript \<noteq> []" and "\<forall>seg\<in>set (take batch_size transcript). seg_text seg \<noteq> None"
  shows "\<exists>result w1 ev.
           translate_endpoint env w transcript target_lang =
             (result, w1,
              NewClient # TranslateCall (texts_of (take batch_size transcript)) target_lang # ev)"
proof -
  from translate_loop_first_call [OF assms, of env target_lang "new_client env w"]
  obtain r w2 ev where
    "translate_loop env target_lang (new_client env w) transcript =
       (r, w2, TranslateCall (texts_of (take batch_size transcript)) target_lang # ev)" by blast
  with assms(1) show ?thesis
    by (cases r) (simp_all add: translate_endpoint_def translate_transcript_def)
qed

theorem translate_passes_any_language_witness:
  "validate_language ''tlh'' = False \<and>
   (\<exists>result w1 ev. translate_endpoint tagging_client 0 two_segments ''tlh'' =
      (result, w1, NewClient # TranslateCall [''hello'', ''hallo''] ''tlh'' # ev))"
proof -
  have v: "validate_language ''tlh'' = False"
    by (simp add: validate_language_def LANGUAGES_def py_lower_char_def)
  have ne: "two_segments \<noteq> []" by (simp add: two_segments_def)
  have tx: "\<forall>seg\<in>set (take batch_size two_segments). seg_text seg \<noteq> None"
    by (simp add: two_segments_def batch_size_def)
  have "texts_of (take batch_size two_segments) = [''hello'', ''hallo'']"
    by (simp add: two_segments_def batch_size_def texts_of_def)
  with translate_passes_any_language [OF ne tx, of tagging_client 0 "''tlh''"] v
  show ?thesis by simp
qed

text \<open>
  Claim C7 as the specification words it fails: the code \<^verbatim>\<open>xx\<close> is not in the table,
  and the endpoint passes it to the translation call; the client refuses it, the batch
  falls back to its input texts, and the endpoint answers with success.
\<close>

theorem unsupported_language_reaches_client:
  "validate_language ''xx'' = False \<and>
   translate_endpoint tagging_client 0 one_segment ''xx'' =
     (Inr [\<lparr>seg_text = Some ''hello'', seg_start = Some 0, seg_duration = Some 2, seg_original = Some ''hello''\<rparr>],
      1, [NewClient, TranslateCall [''hello''] ''xx''])"
  by (simp add: translate_endpoint_def translate_transcript_def translate_loop.simps one_segment_def
      batch_size_def subscript_def translate_batch_def tagging_client_def original_of_def
      validate_language_def LANGUAGES_def py_lower_char_def)

subsection \<open>Properties of the transcript acquisition\<close>

lemma download_audio_events:
  "download_audio lib w video_id = (r, w1, ev) \<Longrightarrow> filter is_whisper_attempt ev = []"
  by (auto simp: download_audio_def Let_def split: prod.splits sum.splits if_splits)

lemma whisper_try_events:
  "whisper_try lib svc w p = (r, svc1, w1, ev) \<Longrightarrow> filter is_whisper_attempt ev = []"
  by (auto simp: whisper_try_def split: prod.splits sum.splits option.splits)

lemma whisper_finally_events:
  "whisper_finally w p = (w1, ev) \<Longrightarrow> filter is_whisper_attempt ev = []"
  by (auto simp: whisper_finally_def split: if_splits)

lemma whisper_finally_removes: "whisper_finally w p = (w1, ev) \<Longrightarrow> \<not> path_exists w1 p"
  by (auto simp: whisper_finally_def path_exists_def os_remove_def split: if_splits)

lemma transcribe_with_whisper_events:
  assumes "transcribe_with_whisper lib svc w video_id = (r, svc1, w1, ev)"
  shows "filter is_whisper_attempt ev = []"
proof -
  obtain d wd evd where d: "download_audio lib w video_id = (d, wd, evd)"
    by (cases "download_audio lib w video_id") auto
  then have e1: "filter is_whisper_attempt evd = []" by (rule download_audio_events)
  show ?thesis
  proof (cases d)
    case (Inl e)
    with assms d e1 show ?thesis by (simp add: transcribe_with_whisper_def)
  next
    case (Inr p)
    obtain o2 s2 w2 ev2 where t: "whisper_try lib svc wd p = (o2, s2, w2, ev2)"
      by (cases "whisper_try lib svc wd p") auto
    obtain w3 ev3 where f: "whisper_finally w2 p = (w3, ev3)"
      by (cases "whisper_finally w2 p") auto
    from t have e2: "filter is_whisper_attempt ev2 = []" by (rule whisper_try_events)
    from f have e3: "filter is_whisper_attempt ev3 = []" by (rule whisper_finally_events)
    from assms d Inr t f have "ev = evd @ ev2 @ ev3" by (simp add: transcribe_with_whisper_def)
    with e1 e2 e3 show ?thesis by simp
  qed
qed

lemma transcribe_with_whisper_cleans:
  assumes "download_audio lib w video_id = (Inr p, wd, evd)"
    and "transcribe_with_whisper lib svc w video_id = (r, svc1, w1, ev)"
  shows "\<not> path_exists w1 p"
proof -
  obtain o2 s2 w2 ev2 where t: "whisper_try lib svc wd p = (o2, s2, w2, ev2)"
    by (cases "whisper_try lib svc wd p") auto
  obtain w3 ev3 where f: "whisper_finally w2 p = (w3, ev3)"
    by (cases "whisper_finally w2 p") auto
  from assms t f have "w1 = w3" by (simp add: transcribe_with_whisper_def)
  with f show ?thesis by (auto dest: whisper_finally_removes)
qed

lemma download_audio_path:
  assumes "download_audio lib w video_id = (Inr p, wd, evd)"
  shows "p = path_join (temp_dir lib) (video_id @ ''.mp3'')" and "path_exists wd p"
  using assms
  by (auto simp: download_audio_def Let_def split: prod.splits sum.splits if_splits)

lemma get_transcript_fallback:
  assumes "fetch_youtube_transcript lib w video_id = (Inl e, w1)"
    and "transcribe_with_whisper lib svc w1 video_id = (r, svc2, w2, ev)"
  shows "get_transcript lib svc w video_id =
     ((case r of
         Inr transcript \<Rightarrow>
           \<lparr>res_transcript = transcript, res_source = ''whisper'', res_success = True, res_error = None\<rparr>
       | Inl e2 \<Rightarrow>
           \<lparr>res_transcript = [], res_source = ''error'', res_success = False,
            res_error = Some (exn_str e2)\<rparr>),
      svc2, w2, OfficialAttempt video_id # WhisperAttempt video_id # ev)"
  using assms by (cases r) (simp_all add: get_transcript_def)

lemma exn_str_cases:
  "exn_str e2 = (case e2 of
                   ValueError m \<Rightarrow> m
                 | KeyError k \<Rightarrow> [CHR 0x27] @ k @ [CHR 0x27]
                 | IndexError m \<Rightarrow> m
                 | TypeError m \<Rightarrow> m
                 | AttributeError m \<Rightarrow> m
                 | RuntimeError m \<Rightarrow> m
                 | FileNotFoundError m \<Rightarrow> m
                 | JSONDecodeError m \<Rightarrow> m
                 | OtherError c m \<Rightarrow> m)"
  by (cases e2) simp_all

text \<open>
  Claim C3, as the code has it. For every video identifier: when the official fetch
  raises, whatever the exception, \<^verbatim>\<open>get_transcript\<close> calls the offline path once and
  returns a result, which is the transcript of the offline path with source \<^verbatim>\<open>whisper\<close>,
  or the error result. A result with success false has no segments, the source
  \<^verbatim>\<open>error\<close>, and as error the text \<^verbatim>\<open>str(e)\<close> of the exception of the offline path: its
  message (the key in quotes for a \<^verbatim>\<open>KeyError\<close>), which is the empty text when the
  exception carries no message.
\<close>

theorem get_transcript_falls_back_once:
  assumes "fetch_youtube_transcript lib w video_id = (Inl e, w1)"
  shows "\<exists>r svc2 w2 ev.
           get_transcript lib svc w video_id = (r, svc2, w2, ev) \<and>
           filter is_whisper_attempt ev = [WhisperAttempt video_id] \<and>
           (case fst (transcribe_with_whisper lib svc w1 video_id) of
              Inr transcript \<Rightarrow>
                r = \<lparr>res_transcript = transcript, res_source = ''whisper'', res_success = True,
                      res_error = None\<rparr>
            | Inl e2 \<Rightarrow>
                r = \<lparr>res_transcript = [], res_source = ''error'', res_success = False,
                      res_error = Some (case e2 of
                                      ValueError m \<Rightarrow> m
                                    | KeyError k \<Rightarrow> [CHR 0x27] @ k @ [CHR 0x27]
                                    | IndexError m \<Rightarrow> m
                                    | TypeError m \<Rightarrow> m
                                    | AttributeError m \<Rightarrow> m
                                    | RuntimeError m \<Rightarrow> m
                                    | FileNotFoundError m \<Rightarrow> m
                                    | JSONDecodeError m \<Rightarrow> m
                                    | OtherError c m \<Rightarrow> m)\<rparr>) \<and>
           (\<not> res_success r \<longrightarrow>
              res_transcript r = [] \<and> res_source r = ''error'' \<and> res_error r \<noteq> None)"
proof -
  obtain outcome svc2 w2 ev where t: "transcribe_with_whisper lib svc w1 video_id = (outcome, svc2, w2, ev)"
    by (cases "transcribe_with_whisper lib svc w1 video_id") auto
  then have "filter is_whisper_attempt ev = []" by (rule transcribe_with_whisper_events)
  with get_transcript_fallback [OF assms t] t show ?thesis
    by (cases outcome) (auto simp: exn_str_cases)
qed

theorem get_transcript_falls_back_once_witness:
  "get_transcript (offline_libraries False) new_service empty_world ''abc12345678'' =
     (\<lparr>res_transcript = [], res_source = ''error'', res_success = False,
       res_error = Some ''Failed to load audio''\<rparr>,
      \<lparr>whisper_model_size = ''base'', whisper_model = Some ()\<rparr>, empty_world,
      [OfficialAttempt ''abc12345678'', WhisperAttempt ''abc12345678'', Download ''abc12345678'',
       LoadModel ''base'', Transcribe ''./temp_audio/abc12345678.mp3'',
       RemoveFile ''./temp_audio/abc12345678.mp3''])"
proof -
  have f: "fetch_youtube_transcript (offline_libraries False) empty_world ''abc12345678'' =
             (Inl (RuntimeError ''Unable to obtain transcript via youtube_transcript_api''), empty_world)"
    by (simp add: fetch_youtube_transcript_def offline_libraries_def)
  have t: "transcribe_with_whisper (offline_libraries False) new_service empty_world ''abc12345678'' =
             (Inl (RuntimeError ''Failed to load audio''),
              \<lparr>whisper_model_size = ''base'', whisper_model = Some ()\<rparr>, empty_world,
              [Download ''abc12345678'', LoadModel ''base'', Transcribe ''./temp_audio/abc12345678.mp3'',
               RemoveFile ''./temp_audio/abc12345678.mp3''])"
    by (simp add: transcribe_with_whisper_def download_audio_def whisper_try_def whisper_finally_def
        offline_libraries_def new_service_def empty_world_def path_join_def path_exists_def
        os_remove_def starts_with_def ends_with_def Let_def)
  from get_transcript_falls_back_once [OF f, of new_service]
  obtain r svc2 w2 ev where
    g: "get_transcript (offline_libraries False) new_service empty_world ''abc12345678'' = (r, svc2, w2, ev)"
    and c: "(case fst (transcribe_with_whisper (offline_libraries False) new_service empty_world ''abc12345678'') of
              Inr transcript \<Rightarrow>
                r = \<lparr>res_transcript = transcript, res_source = ''whisper'', res_success = True,
                      res_error = None\<rparr>
            | Inl e2 \<Rightarrow>
                r = \<lparr>res_transcript = [], res_source = ''error'', res_success = False,
                      res_error = Some (case e2 of
                                      ValueError m \<Rightarrow> m
                                    | KeyError k \<Rightarrow> [CHR 0x27] @ k @ [CHR 0x27]
                                    | IndexError m \<Rightarrow> m
                                    | TypeError m \<Rightarrow> m
                                    | AttributeError m \<Rightarrow> m
                                    | RuntimeError m \<Rightarrow> m
                                    | FileNotFoundError m \<Rightarrow> m
                                    | JSONDecodeError m \<Rightarrow> m
                                    | OtherError c m \<Rightarrow> m)\<rparr>)" by blast
  from c t have r: "r = \<lparr>res_transcript = [], res_source = ''error'', res_success = False,
                          res_error = Some ''Failed to load audio''\<rparr>" by simp
  from get_transcript_fallback [OF f t] g r show ?thesis by simp
qed

text \<open>
  Claim C3 as the specification words it fails: when the offline path fails with an
  exception that carries no message, the result with success false has the empty text
  as its error.
\<close>

theorem error_message_may_be_empty:
  "get_transcript silent_libraries new_service empty_world ''abc12345678'' =
     (\<lparr>res_transcript = [], res_source = ''error'', res_success = False, res_error = Some []\<rparr>,
      \<lparr>whisper_model_size = ''base'', whisper_model = Some ()\<rparr>, empty_world,
      [OfficialAttempt ''abc12345678'', WhisperAttempt ''abc12345678'', Download ''abc12345678'',
       LoadModel ''base'', Transcribe ''./temp_audio/abc12345678.mp3'',
       RemoveFile ''./temp_audio/abc12345678.mp3''])"
  by (simp add: get_transcript_def fetch_youtube_transcript_def transcribe_with_whisper_def
      download_audio_def whisper_try_def whisper_finally_def silent_libraries_def
      offline_libraries_def new_service_def empty_world_def path_join_def path_exists_def
      os_remove_def starts_with_def ends_with_def Let_def)

text \<open>
  Claim C5. For every run of the offline path in which the download of the audio
  succeeds, the audio file, which existed after the download, does not exist when
  \<^verbatim>\<open>get_transcript\<close> returns. Nothing is assumed of the loading of the model and of the
  transcription: they may return or raise.
\<close>

theorem scratch_audio_removed:
  assumes "fetch_youtube_transcript lib w video_id = (Inl e, w1)"
    and "download_audio lib w1 video_id = (Inr audio_path, wd, evd)"
  shows "\<exists>r svc2 w2 ev.
           get_transcript lib svc w video_id = (r, svc2, w2, ev) \<and>
           audio_path = path_join (temp_dir lib) (video_id @ ''.mp3'') \<and>
           path_exists wd audio_path \<and> \<not> path_exists w2 audio_path"
proof -
  obtain outcome svc2 w2 ev where t: "transcribe_with_whisper lib svc w1 video_id = (outcome, svc2, w2, ev)"
    by (cases "transcribe_with_whisper lib svc w1 video_id") auto
  from assms(2) t have "\<not> path_exists w2 audio_path" by (rule transcribe_with_whisper_cleans)
  with get_transcript_fallback [OF assms(1) t] download_audio_path [OF assms(2)]
  show ?thesis by blast
qed

theorem scratch_audio_removed_witness:
  "path_exists (empty_world\<lparr>files := {''./temp_audio/abc12345678.mp3''}\<rparr>) ''./temp_audio/abc12345678.mp3'' \<and>
   (\<exists>r svc2 w2 ev.
      get_transcript (offline_libraries True) new_service empty_world ''abc12345678'' = (r, svc2, w2, ev) \<and>
      res_success r \<and> \<not> path_exists w2 ''./temp_audio/abc12345678.mp3'') \<and>
   (\<exists>r svc2 w2 ev.
      get_transcript (offline_libraries False) new_service empty_world ''abc12345678'' = (r, svc2, w2, ev) \<and>
      \<not> res_success r \<and> \<not> path_exists w2 ''./temp_audio/abc12345678.mp3'')"
proof -
  have f: "fetch_youtube_transcript (offline_libraries b) empty_world ''abc12345678'' =
             (Inl (RuntimeError ''Unable to obtain transcript via youtube_transcript_api''), empty_world)" for b
    by (simp add: fetch_youtube_transcript_def offline_libraries_def)
  have d: "download_audio (offline_libraries b) empty_world ''abc12345678'' =
             (Inr ''./temp_audio/abc12345678.mp3'',
              empty_world\<lparr>files := {''./temp_audio/abc12345678.mp3''}\<rparr>, [Download ''abc12345678''])" for b
    by (simp add: download_audio_def offline_libraries_def empty_world_def path_join_def path_exists_def
        starts_with_def ends_with_def Let_def)
  have t1: "transcribe_with_whisper (offline_libraries True) new_service empty_world ''abc12345678'' =
             (Inr [\<lparr>seg_text = Some ''Hello there.'', seg_start = Some 0, seg_duration = Some 2,
                    seg_original = None\<rparr>],
              \<lparr>whisper_model_size = ''base'', whisper_model = Some ()\<rparr>, empty_world,
              [Download ''abc12345678'', LoadModel ''base'', Transcribe ''./temp_audio/abc12345678.mp3'',
               RemoveFile ''./temp_audio/abc12345678.mp3''])"
    by (simp add: transcribe_with_whisper_def download_audio_def whisper_try_def whisper_finally_def
        offline_libraries_def new_service_def empty_world_def path_join_def path_exists_def
        os_remove_def starts_with_def ends_with_def Let_def normalize_whisper_def py_strip_def
        is_space_def)
  have t2: "transcribe_with_whisper (offline_libraries False) new_service empty_world ''abc12345678'' =
             (Inl (RuntimeError ''Failed to load audio''),
              \<lparr>whisper_model_size = ''base'', whisper_model = Some ()\<rparr>, empty_world,
              [Download ''abc12345678'', LoadModel ''base'', Transcribe ''./temp_audio/abc12345678.mp3'',
               RemoveFile ''./temp_audio/abc12345678.mp3''])"
    by (simp add: transcribe_with_whisper_def download_audio_def whisper_try_def whisper_finally_def
        offline_libraries_def new_service_def empty_world_def path_join_def path_exists_def
        os_remove_def starts_with_def ends_with_def Let_def)
  have s1: "res_success (fst (get_transcript (offline_libraries True) new_service empty_world ''abc12345678''))"
    using get_transcript_fallback [OF f t1] by simp
  have s2: "\<not> res_success (fst (get_transcript (offline_libraries False) new_service empty_world ''abc12345678''))"
    using get_transcript_fallback [OF f t2] by simp
  from scratch_audio_removed [OF f d, of True new_service] s1
  have a: "\<exists>r svc2 w2 ev.
      get_transcript (offline_libraries True) new_service empty_world ''abc12345678'' = (r, svc2, w2, ev) \<and>
      res_success r \<and> \<not> path_exists w2 ''./temp_audio/abc12345678.mp3''" by auto
  from scratch_audio_removed [OF f d, of False new_service] s2
  have b: "\<exists>r svc2 w2 ev.
      get_transcript (offline_libraries False) new_service empty_world ''abc12345678'' = (r, svc2, w2, ev) \<and>
      \<not> res_success r \<and> \<not> path_exists w2 ''./temp_audio/abc12345678.mp3''" by auto
  have p: "path_exists (empty_world\<lparr>files := {''./temp_audio/abc12345678.mp3''}\<rparr>) ''./temp_audio/abc12345678.mp3''"
    by (simp add: path_exists_def)
  from p a b show ?thesis by blast
qed

end
